theory Spec2Isabelle
  imports Complex_Main
begin

section \<open>Values\<close>

text \<open>
  Leaf values and the bounds alfa and beta are Python floats. The evaluators only compare
  them (\<open>max\<close>, \<open>min\<close>, \<open>>=\<close>), so a float is modelled by its value: a real number or one
  of the two infinities \<open>-float('inf')\<close> and \<open>float('inf')\<close>. NaN is left out, and floats
  that compare equal are identified.
\<close>

datatype ext = MenosInf | Fin real | MasInf

instantiation ext :: linorder
begin

fun less_eq_ext :: "ext \<Rightarrow> ext \<Rightarrow> bool" where
  "less_eq_ext MenosInf y = True"
| "less_eq_ext (Fin x) MenosInf = False"
| "less_eq_ext (Fin x) (Fin y) = (x \<le> y)"
| "less_eq_ext (Fin x) MasInf = True"
| "less_eq_ext MasInf MenosInf = False"
| "less_eq_ext MasInf (Fin y) = False"
| "less_eq_ext MasInf MasInf = True"

definition less_ext :: "ext \<Rightarrow> ext \<Rightarrow> bool" where
  "less_ext x y = (x \<le> y \<and> \<not> y \<le> x)"

instance
proof
  fix x y z :: ext
  show "(x < y) = (x \<le> y \<and> \<not> y \<le> x)"
    by (simp add: less_ext_def)
  show "x \<le> x"
    by (cases x) simp_all
  show "x \<le> y \<Longrightarrow> y \<le> z \<Longrightarrow> x \<le> z"
    by (cases x; cases y; cases z) simp_all
  show "x \<le> y \<Longrightarrow> y \<le> x \<Longrightarrow> x = y"
    by (cases x; cases y) simp_all
  show "x \<le> y \<or> y \<le> x"
    by (cases x; cases y) auto
qed

end

section \<open>Nodes\<close>

text \<open>
  Class \<open>Nodo\<close>: the fields \<open>id\<close>, \<open>valor\<close> (\<open>None\<close> until a value is stored),
  \<open>hijos\<close>, \<open>es_max\<close> and \<open>podado\<close>. The field \<open>id\<close> is called \<open>ident\<close> here. A tree
  owns its children (no node object occurs twice), so the in-place updates of the source
  are modelled by returning the updated tree, and a node is identified by the list of
  child positions leading to it from the root.
\<close>

datatype Nodo =
  Nodo (ident: int) (valor: "ext option") (hijos: "Nodo list") (es_max: bool) (podado: bool)

datatype error = TypeError

type_synonym camino = "nat list"

definition es_hoja :: "Nodo \<Rightarrow> bool" where
  "es_hoja n = (length (hijos n) = 0)"

section \<open>Marking a subtree as pruned\<close>

fun marca_podado :: "Nodo \<Rightarrow> Nodo" where
  "marca_podado (Nodo i v hs m p) =
     Nodo i v (if \<not> (length hs = 0) then map marca_podado hs else hs) m True"

section \<open>Alpha-beta evaluation, children from left to right\<close>

text \<open>
  \<open>alfa_beta\<close> returns the value the source returns, the tree as the source leaves it, and
  (third component, not program state) the nodes on which \<open>alfa_beta\<close> was called, as
  positions relative to the node of the call, in call order. \<open>bucle_max\<close> and \<open>bucle_min\<close>
  are the two \<open>for hijo in nodo.hijos\<close> loops, started on the whole list of children with
  position \<open>0\<close>; they return the final \<open>valor\<close> (written \<open>val\<close>) and the children as the
  loop leaves them. A child that returns \<open>None\<close> (a leaf without a value) makes \<open>max\<close> or
  \<open>min\<close> raise \<open>TypeError\<close>; the exception ends the whole evaluation, so no tree is
  returned with it. On a cutoff the slice \<open>nodo.hijos[nodo.hijos.index(hijo) + 1:]\<close> is
  the rest of the list after the child just visited. The recursion limit of the
  interpreter is not modelled.
\<close>

fun alfa_beta :: "Nodo \<Rightarrow> ext \<Rightarrow> ext \<Rightarrow> error + (ext option \<times> Nodo \<times> camino list)"
  and bucle_max ::
    "Nodo list \<Rightarrow> nat \<Rightarrow> ext \<Rightarrow> ext \<Rightarrow> ext \<Rightarrow> error + (ext \<times> Nodo list \<times> camino list)"
  and bucle_min ::
    "Nodo list \<Rightarrow> nat \<Rightarrow> ext \<Rightarrow> ext \<Rightarrow> ext \<Rightarrow> error + (ext \<times> Nodo list \<times> camino list)"
where
  "alfa_beta (Nodo i v hs m p) alfa beta =
     (if length hs = 0 then Inr (v, Nodo i v hs m p, [[]])
      else if m then
        (case bucle_max hs 0 MenosInf alfa beta of
           Inl e \<Rightarrow> Inl e
         | Inr (val, hs', tr) \<Rightarrow> Inr (Some val, Nodo i (Some val) hs' m p, [] # tr))
      else
        (case bucle_min hs 0 MasInf alfa beta of
           Inl e \<Rightarrow> Inl e
         | Inr (val, hs', tr) \<Rightarrow> Inr (Some val, Nodo i (Some val) hs' m p, [] # tr)))"
| "bucle_max [] k val alfa beta = Inr (val, [], [])"
| "bucle_max (hijo # resto) k val alfa beta =
     (case alfa_beta hijo alfa beta of
        Inl e \<Rightarrow> Inl e
      | Inr (None, hijo', tr) \<Rightarrow> Inl TypeError
      | Inr (Some x, hijo', tr) \<Rightarrow>
          (let val' = max val x; alfa' = max alfa val' in
           if alfa' \<ge> beta
           then Inr (val', hijo' # map marca_podado resto, map ((#) k) tr)
           else (case bucle_max resto (Suc k) val' alfa' beta of
                   Inl e \<Rightarrow> Inl e
                 | Inr (vf, resto', tr') \<Rightarrow> Inr (vf, hijo' # resto', map ((#) k) tr @ tr'))))"
| "bucle_min [] k val alfa beta = Inr (val, [], [])"
| "bucle_min (hijo # resto) k val alfa beta =
     (case alfa_beta hijo alfa beta of
        Inl e \<Rightarrow> Inl e
      | Inr (None, hijo', tr) \<Rightarrow> Inl TypeError
      | Inr (Some x, hijo', tr) \<Rightarrow>
          (let val' = min val x; beta' = min beta val' in
           if alfa \<ge> beta'
           then Inr (val', hijo' # map marca_podado resto, map ((#) k) tr)
           else (case bucle_min resto (Suc k) val' alfa beta' of
                   Inl e \<Rightarrow> Inl e
                 | Inr (vf, resto', tr') \<Rightarrow> Inr (vf, hijo' # resto', map ((#) k) tr @ tr'))))"

section \<open>Alpha-beta evaluation, children from right to left\<close>

text \<open>
  The loops of \<open>alfa_beta_reverso\<close> run over \<open>reversed(nodo.hijos)\<close>: the first argument is
  the list of children still to visit, last child first, and \<open>hechos\<close> holds the children
  already visited, as updated, in their stored order. The child being visited stands at
  position \<open>length pend\<close> of \<open>nodo.hijos\<close>, so on a cutoff the slice
  \<open>nodo.hijos[nodo.hijos.index(hijo) + 1:]\<close> that the source marks is \<open>hechos\<close>, and the
  children before that position, \<open>rev pend\<close>, are left as they are. A node starts its loop
  with \<open>rev hs\<close> to visit and nothing visited.
\<close>

function alfa_beta_reverso :: "Nodo \<Rightarrow> ext \<Rightarrow> ext \<Rightarrow> error + (ext option \<times> Nodo \<times> camino list)"
  and bucle_max_rev ::
    "Nodo list \<Rightarrow> Nodo list \<Rightarrow> ext \<Rightarrow> ext \<Rightarrow> ext \<Rightarrow> error + (ext \<times> Nodo list \<times> camino list)"
  and bucle_min_rev ::
    "Nodo list \<Rightarrow> Nodo list \<Rightarrow> ext \<Rightarrow> ext \<Rightarrow> ext \<Rightarrow> error + (ext \<times> Nodo list \<times> camino list)"
where
  "alfa_beta_reverso (Nodo i v hs m p) alfa beta =
     (if length hs = 0 then Inr (v, Nodo i v hs m p, [[]])
      else if m then
        (case bucle_max_rev (rev hs) [] MenosInf alfa beta of
           Inl e \<Rightarrow> Inl e
         | Inr (val, hs', tr) \<Rightarrow> Inr (Some val, Nodo i (Some val) hs' m p, [] # tr))
      else
        (case bucle_min_rev (rev hs) [] MasInf alfa beta of
           Inl e \<Rightarrow> Inl e
         | Inr (val, hs', tr) \<Rightarrow> Inr (Some val, Nodo i (Some val) hs' m p, [] # tr)))"
| "bucle_max_rev [] hechos val alfa beta = Inr (val, hechos, [])"
| "bucle_max_rev (hijo # pend) hechos val alfa beta =
     (case alfa_beta_reverso hijo alfa beta of
        Inl e \<Rightarrow> Inl e
      | Inr (None, hijo', tr) \<Rightarrow> Inl TypeError
      | Inr (Some x, hijo', tr) \<Rightarrow>
          (let val' = max val x; alfa' = max alfa val'; k = length pend in
           if alfa' \<ge> beta
           then Inr (val', rev pend @ hijo' # map marca_podado hechos, map ((#) k) tr)
           else (case bucle_max_rev pend (hijo' # hechos) val' alfa' beta of
                   Inl e \<Rightarrow> Inl e
                 | Inr (vf, hs', tr') \<Rightarrow> Inr (vf, hs', map ((#) k) tr @ tr'))))"
| "bucle_min_rev [] hechos val alfa beta = Inr (val, hechos, [])"
| "bucle_min_rev (hijo # pend) hechos val alfa beta =
     (case alfa_beta_reverso hijo alfa beta of
        Inl e \<Rightarrow> Inl e
      | Inr (None, hijo', tr) \<Rightarrow> Inl TypeError
      | Inr (Some x, hijo', tr) \<Rightarrow>
          (let val' = min val x; beta' = min beta val'; k = length pend in
           if alfa \<ge> beta'
           then Inr (val', rev pend @ hijo' # map marca_podado hechos, map ((#) k) tr)
           else (case bucle_min_rev pend (hijo' # hechos) val' alfa beta' of
                   Inl e \<Rightarrow> Inl e
                 | Inr (vf, hs', tr') \<Rightarrow> Inr (vf, hs', map ((#) k) tr @ tr'))))"
  by pat_completeness auto

lemma size_list_rev: "size_list f (rev xs) = size_list f xs"
  by (induction xs) simp_all

termination alfa_beta_reverso
  by (relation "measure (\<lambda>x. case x of
          Inl (n, alfa, beta) \<Rightarrow> size n
        | Inr (Inl (pend, hechos, val, alfa, beta)) \<Rightarrow> size_list size pend
        | Inr (Inr (pend, hechos, val, alfa, beta)) \<Rightarrow> size_list size pend)")
     (simp_all add: size_list_rev)

section \<open>The tree generator\<close>

text \<open>
  \<open>crear_arbol\<close> and its inner function \<open>_generar_subarbol\<close>. The state threaded through
  the calls is the counter \<open>contador_id\<close> and the number of values drawn so far from
  \<open>random.uniform\<close>; the generator of random numbers is the parameter \<open>azar\<close>, which gives
  the value of each draw. \<open>generar_hijos\<close> is the loop \<open>for _ in range(factor_ramificacion)\<close>,
  its fourth argument the number of iterations left.
\<close>

record gen_estado =
  contador_id :: int
  sorteos :: nat

function generar_subarbol ::
    "int \<Rightarrow> int \<Rightarrow> (nat \<Rightarrow> real) \<Rightarrow> int \<Rightarrow> bool \<Rightarrow> gen_estado \<Rightarrow> Nodo \<times> gen_estado"
  and generar_hijos ::
    "int \<Rightarrow> int \<Rightarrow> (nat \<Rightarrow> real) \<Rightarrow> nat \<Rightarrow> int \<Rightarrow> bool \<Rightarrow> gen_estado \<Rightarrow> Nodo list \<times> gen_estado"
where
  "generar_subarbol factor profundidad azar prof_actual mx s =
     (let identificador_actual = contador_id s;
          s1 = s\<lparr>contador_id := contador_id s + 1\<rparr>
      in if prof_actual \<ge> profundidad
         then (Nodo identificador_actual (Some (Fin (azar (sorteos s1)))) [] mx False,
               s1\<lparr>sorteos := Suc (sorteos s1)\<rparr>)
         else (case generar_hijos factor profundidad azar (nat factor) prof_actual mx s1 of
                 (hs, s2) \<Rightarrow> (Nodo identificador_actual None hs mx False, s2)))"
| "generar_hijos factor profundidad azar 0 prof_actual mx s = ([], s)"
| "generar_hijos factor profundidad azar (Suc n) prof_actual mx s =
     (case generar_subarbol factor profundidad azar (prof_actual + 1) (\<not> mx) s of
        (hijo, s1) \<Rightarrow>
          (case generar_hijos factor profundidad azar n prof_actual mx s1 of
             (resto, s2) \<Rightarrow> (hijo # resto, s2)))"
  by pat_completeness auto

termination generar_subarbol
  by (relation "measures
        [\<lambda>x. case x of
            Inl (factor, profundidad, azar, prof_actual, mx, s) \<Rightarrow>
              2 * nat (profundidad - prof_actual)
          | Inr (factor, profundidad, azar, n, prof_actual, mx, s) \<Rightarrow>
              2 * nat (profundidad - (prof_actual + 1)) + 1,
         \<lambda>x. case x of
            Inl (factor, profundidad, azar, prof_actual, mx, s) \<Rightarrow> 0
          | Inr (factor, profundidad, azar, n, prof_actual, mx, s) \<Rightarrow> n]")
     auto

definition crear_arbol :: "int \<Rightarrow> int \<Rightarrow> (nat \<Rightarrow> real) \<Rightarrow> bool \<Rightarrow> Nodo" where
  "crear_arbol factor_ramificacion profundidad azar raiz_es_max =
     fst (generar_subarbol factor_ramificacion profundidad azar 0 raiz_es_max
            \<lparr>contador_id = 0, sorteos = 0\<rparr>)"

text \<open>
  The equation of \<open>generar_subarbol\<close> applies to every call, so it is unfolded only where a
  proof names it.
\<close>

declare generar_subarbol.simps [simp del]

section \<open>Positions and traversals of a tree\<close>

text \<open>
  The node at a position, the leaves from left to right, the nodes in pre-order (the order
  in which the generator creates them) and their identifiers in that order.
\<close>

fun nodo_en :: "Nodo \<Rightarrow> camino \<Rightarrow> Nodo option" where
  "nodo_en n [] = Some n"
| "nodo_en n (k # ks) = (if k < length (hijos n) then nodo_en (hijos n ! k) ks else None)"

fun hojas :: "Nodo \<Rightarrow> Nodo list" where
  "hojas (Nodo i v hs m p) =
     (if length hs = 0 then [Nodo i v hs m p] else concat (map hojas hs))"

fun preorden :: "Nodo \<Rightarrow> Nodo list" where
  "preorden (Nodo i v hs m p) = Nodo i v hs m p # concat (map preorden hs)"

definition ids :: "Nodo \<Rightarrow> int list" where
  "ids t = map ident (preorden t)"

text \<open>The calls of \<open>marca_podado\<close> made by a call on a node, as positions relative to it.\<close>

fun llamadas_marca :: "Nodo \<Rightarrow> camino list"
  and llamadas_marca_hijos :: "Nodo list \<Rightarrow> nat \<Rightarrow> camino list"
where
  "llamadas_marca (Nodo i v hs m p) =
     [] # (if \<not> (length hs = 0) then llamadas_marca_hijos hs 0 else [])"
| "llamadas_marca_hijos [] k = []"
| "llamadas_marca_hijos (hijo # resto) k =
     map ((#) k) (llamadas_marca hijo) @ llamadas_marca_hijos resto (Suc k)"

section \<open>Conditions on trees\<close>

text \<open>A well-formed tree: every leaf carries a value.\<close>

fun bien_formado :: "Nodo \<Rightarrow> bool" where
  "bien_formado (Nodo i v hs m p) =
     (if length hs = 0 then v \<noteq> None else list_all bien_formado hs)"

text \<open>A tree as the constructor of \<open>Nodo\<close> and the generator leave it: no node is marked
  as pruned, and only the leaves carry a value.\<close>

fun recien_creado :: "Nodo \<Rightarrow> bool" where
  "recien_creado (Nodo i v hs m p) =
     (\<not> p \<and> (if length hs = 0 then v \<noteq> None else v = None \<and> list_all recien_creado hs))"

text \<open>
  No node is marked as pruned.
\<close>

fun sin_marcas :: "Nodo \<Rightarrow> bool" where
  "sin_marcas (Nodo i v hs m p) = (\<not> p \<and> list_all sin_marcas hs)"

text \<open>The complete tree of branching factor \<open>f\<close> and depth \<open>d\<close> whose root has tag \<open>mx\<close>,
  with a value in every leaf.\<close>

fun completo :: "nat \<Rightarrow> nat \<Rightarrow> bool \<Rightarrow> Nodo \<Rightarrow> bool" where
  "completo f 0 mx n = (hijos n = [] \<and> valor n \<noteq> None \<and> es_max n = mx)"
| "completo f (Suc d) mx n =
     (length (hijos n) = f \<and> es_max n = mx \<and> list_all (completo f d (\<not> mx)) (hijos n))"

section \<open>Full minimax\<close>

text \<open>
  The value of a node under a full traversal without pruning, as the specification words
  it: a leaf has its stored value, a MAX node the maximum of its children's values, a MIN
  node the minimum. It is \<open>None\<close> where a leaf below has no value.
\<close>

fun minimax :: "Nodo \<Rightarrow> ext option" where
  "minimax (Nodo i v hs m p) =
     (if length hs = 0 then v
      else (case those (map minimax hs) of
              None \<Rightarrow> None
            | Some xs \<Rightarrow> Some (if m then fold max xs MenosInf else fold min xs MasInf)))"

text \<open>
  The same value as a total function (a leaf without a value counts as \<open>-inf\<close>), and the
  value \<open>x\<close> as seen through the window from \<open>a\<close> to \<open>b\<close>; both serve the proofs only.
\<close>

fun minimax_val :: "Nodo \<Rightarrow> ext" where
  "minimax_val (Nodo i v hs m p) =
     (if length hs = 0 then (case v of None \<Rightarrow> MenosInf | Some x \<Rightarrow> x)
      else if m then fold max (map minimax_val hs) MenosInf
      else fold min (map minimax_val hs) MasInf)"

definition acota :: "ext \<Rightarrow> ext \<Rightarrow> ext \<Rightarrow> ext" where
  "acota a b x = max a (min x b)"

section \<open>What an evaluation may change\<close>

text \<open>
  What an evaluation may do to a tree: leave a node as it is, mark a whole subtree, or
  store a value in an internal node and change its children in the same ways.
\<close>

inductive evoluciona :: "Nodo \<Rightarrow> Nodo \<Rightarrow> bool" where
  igual: "evoluciona n n"
| marcado: "evoluciona n n' \<Longrightarrow> evoluciona n (marca_podado n')"
| interno: "list_all2 evoluciona hs hs' \<Longrightarrow> hs \<noteq> [] \<Longrightarrow>
     evoluciona (Nodo i v hs m p) (Nodo i v' hs' m p)"

text \<open>What evaluation must not touch: the tree without the values of its internal nodes
  and without its marks.\<close>

fun base :: "Nodo \<Rightarrow> Nodo" where
  "base (Nodo i v hs m p) = Nodo i (if length hs = 0 then v else None) (map base hs) m False"

text \<open>
  A subtree marked or left as it is, by the flag.
\<close>

definition marca_si :: "bool \<Rightarrow> Nodo \<Rightarrow> Nodo" where
  "marca_si c n = (if c then marca_podado n else n)"

text \<open>
  All nodes of a tree are marked; and, as a recursive function, the propagation of marks
  stated below by positions.
\<close>

fun todos_podados :: "Nodo \<Rightarrow> bool" where
  "todos_podados (Nodo i v hs m p) = (p \<and> list_all todos_podados hs)"

fun poda_cerrada :: "Nodo \<Rightarrow> bool" where
  "poda_cerrada (Nodo i v hs m p) =
     ((if p then list_all todos_podados hs else True) \<and> list_all poda_cerrada hs)"

text \<open>Every descendant of a node marked as pruned is marked as pruned.\<close>

definition poda_propagada :: "Nodo \<Rightarrow> bool" where
  "poda_propagada t =
     (\<forall>q r d e. nodo_en t q = Some d \<longrightarrow> podado d \<longrightarrow> nodo_en t (q @ r) = Some e \<longrightarrow> podado e)"

text \<open>
  Every internal node marked as pruned has no value.
\<close>

fun podados_sin_valor :: "Nodo \<Rightarrow> bool" where
  "podados_sin_valor (Nodo i v hs m p) =
     ((if p \<and> \<not> (length hs = 0) then v = None else True) \<and> list_all podados_sin_valor hs)"

section \<open>Example trees\<close>

text \<open>
  \<open>hoja i x m\<close> is a leaf as the generator creates it. The trees have a MAX root and
  alternate tags by level; a tree named \<open>_directo\<close> or \<open>_reverso\<close> is what the left-to-right
  or the right-to-left evaluation leaves, with the list of the calls it made.
\<close>

definition hoja :: "int \<Rightarrow> real \<Rightarrow> bool \<Rightarrow> Nodo" where
  "hoja i x m = Nodo i (Some (Fin x)) [] m False"

text \<open>Depth 2, branching factor 2, MAX root, leaves \<open>[[3, 5], [2, 9]]\<close>.\<close>

definition arbol_escenario :: Nodo where
  "arbol_escenario =
     Nodo 0 None
       [Nodo 1 None [hoja 2 3 True, hoja 3 5 True] False False,
        Nodo 4 None [hoja 5 2 True, hoja 6 9 True] False False]
       True False"

text \<open>
  Depth 2, branching factor 2, MAX root, leaves \<open>[[2, 9], [3, 5]]\<close>.
\<close>

definition arbol_2935 :: Nodo where
  "arbol_2935 =
     Nodo 0 None
       [Nodo 1 None [hoja 2 2 True, hoja 3 9 True] False False,
        Nodo 4 None [hoja 5 3 True, hoja 6 5 True] False False]
       True False"

definition arbol_2935_reverso :: Nodo where
  "arbol_2935_reverso =
     Nodo 0 (Some (Fin 3))
       [Nodo 1 (Some (Fin 2)) [hoja 2 2 True, Nodo 3 (Some (Fin 9)) [] True True] False False,
        Nodo 4 (Some (Fin 3)) [hoja 5 3 True, hoja 6 5 True] False False]
       True False"

text \<open>Depth 2, branching factor 2, MAX root, leaves \<open>[[9, 2], [3, 5]]\<close>.\<close>

definition arbol_9235 :: Nodo where
  "arbol_9235 =
     Nodo 0 None
       [Nodo 1 None [hoja 2 9 True, hoja 3 2 True] False False,
        Nodo 4 None [hoja 5 3 True, hoja 6 5 True] False False]
       True False"

definition arbol_9235_reverso :: Nodo where
  "arbol_9235_reverso =
     Nodo 0 (Some (Fin 3))
       [Nodo 1 (Some (Fin 2)) [hoja 2 9 True, hoja 3 2 True] False False,
        Nodo 4 (Some (Fin 3)) [hoja 5 3 True, hoja 6 5 True] False False]
       True False"

text \<open>Depth 3, branching factor 2, MAX root.\<close>

definition arbol_prof3 :: Nodo where
  "arbol_prof3 =
     Nodo 0 None
       [Nodo 1 None
          [Nodo 2 None [hoja 3 1 False, hoja 4 2 False] True False,
           Nodo 5 None [hoja 6 6 False, hoja 7 7 False] True False] False False,
        Nodo 8 None
          [Nodo 9 None [hoja 10 1 False, hoja 11 3 False] True False,
           Nodo 12 None [hoja 13 2 False, hoja 14 4 False] True False] False False]
       True False"

definition arbol_prof3_directo :: Nodo where
  "arbol_prof3_directo =
     Nodo 0 (Some (Fin 3))
       [Nodo 1 (Some (Fin 2))
          [Nodo 2 (Some (Fin 2)) [hoja 3 1 False, hoja 4 2 False] True False,
           Nodo 5 (Some (Fin 6))
             [hoja 6 6 False, Nodo 7 (Some (Fin 7)) [] False True]
             True False] False False,
        Nodo 8 (Some (Fin 3))
          [Nodo 9 (Some (Fin 3)) [hoja 10 1 False, hoja 11 3 False] True False,
           Nodo 12 (Some (Fin 4)) [hoja 13 2 False, hoja 14 4 False] True False] False False]
       True False"

definition traza_prof3_directo :: "camino list" where
  "traza_prof3_directo =
     [[], [0], [0, 0], [0, 0, 0], [0, 0, 1], [0, 1], [0, 1, 0],
      [1], [1, 0], [1, 0, 0], [1, 0, 1], [1, 1], [1, 1, 0], [1, 1, 1]]"

definition arbol_prof3_reverso :: Nodo where
  "arbol_prof3_reverso =
     Nodo 0 (Some (Fin 3))
       [Nodo 1 (Some (Fin 2))
          [Nodo 2 (Some (Fin 2)) [hoja 3 1 False, hoja 4 2 False] True False,
           Nodo 5 (Some (Fin 7))
             [Nodo 6 (Some (Fin 6)) [] False True, Nodo 7 (Some (Fin 7)) [] False True]
             True True] False False,
        Nodo 8 (Some (Fin 3))
          [Nodo 9 (Some (Fin 3)) [hoja 10 1 False, hoja 11 3 False] True False,
           Nodo 12 (Some (Fin 4)) [hoja 13 2 False, hoja 14 4 False] True False] False False]
       True False"

definition traza_prof3_reverso :: "camino list" where
  "traza_prof3_reverso =
     [[], [1], [1, 1], [1, 1, 1], [1, 1, 0], [1, 0], [1, 0, 1], [1, 0, 0],
      [0], [0, 1], [0, 1, 1], [0, 1, 0], [0, 0], [0, 0, 1], [0, 0, 0]]"

text \<open>
  The tree \<open>crear_arbol 2 2\<close> builds when the \<open>k\<close>-th random draw is \<open>k\<close>.
\<close>

definition arbol_generado :: Nodo where
  "arbol_generado =
     Nodo 0 None
       [Nodo 1 None [hoja 2 0 True, hoja 3 1 True] False False,
        Nodo 4 None [hoja 5 2 True, hoja 6 3 True] False False]
       True False"

section \<open>The scenario of the specification\<close>

text \<open>
  C7. On the scenario tree, the left-to-right evaluation from \<open>-inf\<close> and \<open>+inf\<close> returns 3:
  the first MIN child gets the value 3, the loop of the second MIN child, run with
  \<open>alfa = 3\<close>, stops after its first child (value 2, since \<open>3 >= 2\<close>) and marks the
  second one, the root gets \<open>max 3 2 = 3\<close>, the call was made on every node but the leaf
  9, and that leaf is the only leaf marked as pruned.
\<close>

theorem escenario_izquierda_derecha:
  "alfa_beta arbol_escenario MenosInf MasInf =
     Inr (Some (Fin 3),
          Nodo 0 (Some (Fin 3))
            [Nodo 1 (Some (Fin 3)) [hoja 2 3 True, hoja 3 5 True] False False,
             Nodo 4 (Some (Fin 2)) [hoja 5 2 True, Nodo 6 (Some (Fin 9)) [] True True]
               False False]
            True False,
          [[], [0], [0, 0], [0, 1], [1], [1, 0]])
   \<and> bucle_min [hoja 5 2 True, hoja 6 9 True] 0 MasInf (Fin 3) MasInf =
       Inr (Fin 2, [hoja 5 2 True, Nodo 6 (Some (Fin 9)) [] True True], [[0]])
   \<and> max (Fin 3) (Fin 2) = Fin 3
   \<and> filter podado
        (hojas (fst (snd (projr (alfa_beta arbol_escenario MenosInf MasInf))))) =
       [Nodo 6 (Some (Fin 9)) [] True True]"
  by (simp add: arbol_escenario_def hoja_def max_def min_def)

section \<open>The order on values\<close>

lemma MenosInf_le [simp]: "MenosInf \<le> (x::ext)"
  by simp

lemma le_MasInf [simp]: "(x::ext) \<le> MasInf"
  by (cases x) simp_all

lemma MenosInf_less_MasInf [simp]: "MenosInf < MasInf"
  by (simp add: less_ext_def)

lemma max_MenosInf [simp]: "max MenosInf x = x" "max x MenosInf = x"
  by (simp_all add: max_def antisym)

lemma min_MasInf [simp]: "min MasInf x = x" "min x MasInf = x"
  by (simp_all add: min_def antisym)

lemma acota_total [simp]: "acota MenosInf MasInf x = x"
  by (simp add: acota_def)

lemma fold_max_ini: "fold max xs (s::ext) = max s (fold max xs MenosInf)"
proof (induction xs arbitrary: s)
  case Nil
  show ?case by simp
next
  case (Cons x xs)
  have "fold max (x # xs) s = max (max x s) (fold max xs MenosInf)"
    using Cons.IH [of "max x s"] by simp
  also have "\<dots> = max s (max x (fold max xs MenosInf))"
    by (simp add: max.assoc max.commute)
  also have "max x (fold max xs MenosInf) = fold max (x # xs) MenosInf"
    using Cons.IH [of x] by simp
  finally show ?case .
qed

lemma fold_min_ini: "fold min xs (s::ext) = min s (fold min xs MasInf)"
proof (induction xs arbitrary: s)
  case Nil
  show ?case by simp
next
  case (Cons x xs)
  have "fold min (x # xs) s = min (min x s) (fold min xs MasInf)"
    using Cons.IH [of "min x s"] by simp
  also have "\<dots> = min s (min x (fold min xs MasInf))"
    by (simp add: min.assoc min.commute)
  also have "min x (fold min xs MasInf) = fold min (x # xs) MasInf"
    using Cons.IH [of x] by simp
  finally show ?case .
qed

lemma corte_max:
  fixes a b val x m r :: ext
  assumes "val \<le> a" "a < b" "acota a b x = acota a b m" "b \<le> max a (max val x)"
  shows "acota a b (max val x) = acota a b (max (max val m) r)"
  using assms by (auto simp: acota_def max_def min_def split: if_splits)

lemma paso_max:
  fixes a b val x m r vf :: ext
  assumes "val \<le> a" "a < b" "acota a b x = acota a b m" "\<not> b \<le> max a (max val x)"
    and "max val x \<le> vf"
    and "acota (max a (max val x)) b vf = acota (max a (max val x)) b (max (max val x) r)"
  shows "acota a b vf = acota a b (max (max val m) r)"
  using assms by (auto simp: acota_def max_def min_def split: if_splits)

lemma corte_min:
  fixes a b val x m r :: ext
  assumes "b \<le> val" "a < b" "acota a b x = acota a b m" "min b (min val x) \<le> a"
  shows "acota a b (min val x) = acota a b (min (min val m) r)"
  using assms by (auto simp: acota_def max_def min_def split: if_splits)

lemma paso_min:
  fixes a b val x m r vf :: ext
  assumes "b \<le> val" "a < b" "acota a b x = acota a b m" "\<not> min b (min val x) \<le> a"
    and "vf \<le> min val x"
    and "acota a (min b (min val x)) vf = acota a (min b (min val x)) (min (min val x) r)"
  shows "acota a b vf = acota a b (min (min val m) r)"
  using assms by (auto simp: acota_def max_def min_def split: if_splits)

section \<open>The value returned is the minimax value\<close>

lemma fold_max_ge: "(s::ext) \<le> fold max xs s"
  by (subst fold_max_ini) simp

lemma bucle_max_valor:
  assumes hijos_ok: "\<And>h a b. h \<in> set hs \<Longrightarrow> a < b \<Longrightarrow>
      \<exists>x h' tr. alfa_beta h a b = Inr (Some x, h', tr) \<and> acota a b x = acota a b (minimax_val h)"
    and "val \<le> a" and "a < b"
  shows "\<exists>vf hs' tr. bucle_max hs k val a b = Inr (vf, hs', tr) \<and> val \<le> vf
           \<and> acota a b vf = acota a b (fold max (map minimax_val hs) val)"
  using assms
proof (induction hs arbitrary: k val a)
  case Nil
  show ?case by simp
next
  case (Cons h resto)
  obtain x h' trh where h: "alfa_beta h a b = Inr (Some x, h', trh)"
    and hx: "acota a b x = acota a b (minimax_val h)"
    using Cons.prems(1) [of h a b] Cons.prems(3) by auto
  let ?r = "fold max (map minimax_val resto) MenosInf"
  have plegado: "fold max (map minimax_val (h # resto)) val = max (max val (minimax_val h)) ?r"
    using fold_max_ini [of "map minimax_val resto" "max (minimax_val h) val"]
    by (simp add: max.commute)
  show ?case
  proof (cases "b \<le> max a (max val x)")
    case True
    have "acota a b (max val x) = acota a b (max (max val (minimax_val h)) ?r)"
      using corte_max [OF Cons.prems(2) Cons.prems(3) hx True] .
    then show ?thesis
      using h True plegado by (simp add: Let_def)
  next
    case False
    have menor: "max a (max val x) < b"
      using False by (simp only: not_le)
    have "\<exists>vf hs' tr. bucle_max resto (Suc k) (max val x) (max a (max val x)) b = Inr (vf, hs', tr)
            \<and> max val x \<le> vf
            \<and> acota (max a (max val x)) b vf =
                acota (max a (max val x)) b (fold max (map minimax_val resto) (max val x))"
      using Cons.IH [of "max val x" "max a (max val x)" "Suc k"] Cons.prems(1) menor
      by simp
    then obtain vf hs' tr where
      b: "bucle_max resto (Suc k) (max val x) (max a (max val x)) b = Inr (vf, hs', tr)"
      and vf: "max val x \<le> vf"
      and ac: "acota (max a (max val x)) b vf =
                acota (max a (max val x)) b (fold max (map minimax_val resto) (max val x))"
      by blast
    have ac': "acota (max a (max val x)) b vf = acota (max a (max val x)) b (max (max val x) ?r)"
      using ac fold_max_ini [of "map minimax_val resto" "max val x"] by simp
    have "acota a b vf = acota a b (max (max val (minimax_val h)) ?r)"
      using paso_max [OF Cons.prems(2) Cons.prems(3) hx False vf ac'] .
    moreover have "val \<le> vf"
      using vf by simp
    ultimately show ?thesis
      using h b False plegado by (simp add: Let_def)
  qed
qed

lemma fold_min_le: "fold min xs (s::ext) \<le> s"
  by (subst fold_min_ini) simp

lemma bucle_min_valor:
  assumes hijos_ok: "\<And>h a b. h \<in> set hs \<Longrightarrow> a < b \<Longrightarrow>
      \<exists>x h' tr. alfa_beta h a b = Inr (Some x, h', tr) \<and> acota a b x = acota a b (minimax_val h)"
    and "b \<le> val" and "a < b"
  shows "\<exists>vf hs' tr. bucle_min hs k val a b = Inr (vf, hs', tr) \<and> vf \<le> val
           \<and> acota a b vf = acota a b (fold min (map minimax_val hs) val)"
  using assms
proof (induction hs arbitrary: k val b)
  case Nil
  show ?case by simp
next
  case (Cons h resto)
  obtain x h' trh where h: "alfa_beta h a b = Inr (Some x, h', trh)"
    and hx: "acota a b x = acota a b (minimax_val h)"
    using Cons.prems(1) [of h a b] Cons.prems(3) by auto
  let ?r = "fold min (map minimax_val resto) MasInf"
  have plegado: "fold min (map minimax_val (h # resto)) val = min (min val (minimax_val h)) ?r"
    using fold_min_ini [of "map minimax_val resto" "min (minimax_val h) val"]
    by (simp add: min.commute)
  show ?case
  proof (cases "min b (min val x) \<le> a")
    case True
    have "acota a b (min val x) = acota a b (min (min val (minimax_val h)) ?r)"
      using corte_min [OF Cons.prems(2) Cons.prems(3) hx True] .
    then show ?thesis
      using h True plegado by (simp add: Let_def)
  next
    case False
    have menor: "a < min b (min val x)"
      using False by (simp only: not_le)
    have "\<exists>vf hs' tr. bucle_min resto (Suc k) (min val x) a (min b (min val x)) = Inr (vf, hs', tr)
            \<and> vf \<le> min val x
            \<and> acota a (min b (min val x)) vf =
                acota a (min b (min val x)) (fold min (map minimax_val resto) (min val x))"
    proof -
      have hijos_resto: "\<exists>x h' tr. alfa_beta h a b = Inr (Some x, h', tr)
          \<and> acota a b x = acota a b (minimax_val h)" if "h \<in> set resto" "a < b" for h a b
        using that Cons.prems(1) [of h a b] by simp
      have pre: "min b (min val x) \<le> min val x"
        by (rule min.cobounded2)
      show ?thesis
        using Cons.IH [OF hijos_resto pre menor, of "Suc k"] by simp
    qed
    then obtain vf hs' tr where
      b: "bucle_min resto (Suc k) (min val x) a (min b (min val x)) = Inr (vf, hs', tr)"
      and vf: "vf \<le> min val x"
      and ac: "acota a (min b (min val x)) vf =
                acota a (min b (min val x)) (fold min (map minimax_val resto) (min val x))"
      by blast
    have ac': "acota a (min b (min val x)) vf = acota a (min b (min val x)) (min (min val x) ?r)"
      using ac fold_min_ini [of "map minimax_val resto" "min val x"] by simp
    have "acota a b vf = acota a b (min (min val (minimax_val h)) ?r)"
      using paso_min [OF Cons.prems(2) Cons.prems(3) hx False vf ac'] .
    moreover have "vf \<le> val"
      using vf by simp
    ultimately show ?thesis
      using h b False plegado by (simp add: Let_def)
  qed
qed

lemma bien_formado_hijos:
  "bien_formado (Nodo i v hs m p) \<Longrightarrow> hs \<noteq> [] \<Longrightarrow> h \<in> set hs \<Longrightarrow> bien_formado h"
  by (simp add: list_all_iff)

lemma alfa_beta_valor:
  "bien_formado n \<Longrightarrow> a < b \<Longrightarrow>
     \<exists>x n' tr. alfa_beta n a b = Inr (Some x, n', tr) \<and> acota a b x = acota a b (minimax_val n)"
proof (induction n arbitrary: a b)
  case (Nodo i v hs m p)
  show ?case
  proof (cases "hs = []")
    case True
    then show ?thesis using Nodo.prems(1) by auto
  next
    case False
    have hijos_ok: "\<And>h a b. h \<in> set hs \<Longrightarrow> a < b \<Longrightarrow>
      \<exists>x h' tr. alfa_beta h a b = Inr (Some x, h', tr) \<and> acota a b x = acota a b (minimax_val h)"
      using Nodo.IH bien_formado_hijos [OF Nodo.prems(1) False] by blast
    show ?thesis
    proof (cases m)
      case True
      obtain vf hs' tr where "bucle_max hs 0 MenosInf a b = Inr (vf, hs', tr)"
        and "acota a b vf = acota a b (fold max (map minimax_val hs) MenosInf)"
        using bucle_max_valor [OF hijos_ok, of hs MenosInf a b 0] Nodo.prems(2) by auto
      then show ?thesis using False True by simp
    next
      case no_max: False
      obtain vf hs' tr where "bucle_min hs 0 MasInf a b = Inr (vf, hs', tr)"
        and "acota a b vf = acota a b (fold min (map minimax_val hs) MasInf)"
        using bucle_min_valor [OF hijos_ok, of hs b MasInf a 0] Nodo.prems(2) by auto
      then show ?thesis using False no_max by simp
    qed
  qed
qed

lemma those_map_Some: "those (map (\<lambda>x. Some (f x)) xs) = Some (map f xs)"
  by (induction xs) simp_all

lemma minimax_minimax_val: "bien_formado n \<Longrightarrow> minimax n = Some (minimax_val n)"
proof (induction n)
  case (Nodo i v hs m p)
  show ?case
  proof (cases "hs = []")
    case True
    then show ?thesis using Nodo.prems by auto
  next
    case False
    have eq: "map minimax hs = map (\<lambda>h. Some (minimax_val h)) hs"
      using Nodo.IH bien_formado_hijos [OF Nodo.prems False] by (intro map_cong refl) auto
    have "those (map minimax hs) = Some (map minimax_val hs)"
      unfolding eq by (rule those_map_Some)
    then show ?thesis using False by simp
  qed
qed

lemma bucle_max_rev_valor:
  assumes hijos_ok: "\<And>h a b. h \<in> set pend \<Longrightarrow> a < b \<Longrightarrow>
      \<exists>x h' tr. alfa_beta_reverso h a b = Inr (Some x, h', tr)
        \<and> acota a b x = acota a b (minimax_val h)"
    and "val \<le> a" and "a < b"
  shows "\<exists>vf hs' tr. bucle_max_rev pend hechos val a b = Inr (vf, hs', tr) \<and> val \<le> vf
           \<and> acota a b vf = acota a b (fold max (map minimax_val pend) val)"
  using assms
proof (induction pend arbitrary: hechos val a)
  case Nil
  show ?case by simp
next
  case (Cons h resto)
  obtain x h' trh where h: "alfa_beta_reverso h a b = Inr (Some x, h', trh)"
    and hx: "acota a b x = acota a b (minimax_val h)"
    using Cons.prems(1) [of h a b] Cons.prems(3) by auto
  let ?r = "fold max (map minimax_val resto) MenosInf"
  have plegado: "fold max (map minimax_val (h # resto)) val = max (max val (minimax_val h)) ?r"
    using fold_max_ini [of "map minimax_val resto" "max (minimax_val h) val"]
    by (simp add: max.commute)
  show ?case
  proof (cases "b \<le> max a (max val x)")
    case True
    have "acota a b (max val x) = acota a b (max (max val (minimax_val h)) ?r)"
      using corte_max [OF Cons.prems(2) Cons.prems(3) hx True] .
    then show ?thesis
      using h True plegado by (simp add: Let_def)
  next
    case False
    have menor: "max a (max val x) < b"
      using False by (simp only: not_le)
    have "\<exists>vf hs' tr. bucle_max_rev resto (h' # hechos) (max val x) (max a (max val x)) b =
              Inr (vf, hs', tr)
            \<and> max val x \<le> vf
            \<and> acota (max a (max val x)) b vf =
                acota (max a (max val x)) b (fold max (map minimax_val resto) (max val x))"
    proof -
      have hijos_resto: "\<exists>x h' tr. alfa_beta_reverso h a b = Inr (Some x, h', tr)
          \<and> acota a b x = acota a b (minimax_val h)" if "h \<in> set resto" "a < b" for h a b
        using that Cons.prems(1) [of h a b] by simp
      have pre: "max val x \<le> max a (max val x)"
        by (rule max.cobounded2)
      show ?thesis
        using Cons.IH [OF hijos_resto pre menor, of "h' # hechos"] by simp
    qed
    then obtain vf hs' tr where
      b: "bucle_max_rev resto (h' # hechos) (max val x) (max a (max val x)) b = Inr (vf, hs', tr)"
      and vf: "max val x \<le> vf"
      and ac: "acota (max a (max val x)) b vf =
                acota (max a (max val x)) b (fold max (map minimax_val resto) (max val x))"
      by blast
    have ac': "acota (max a (max val x)) b vf = acota (max a (max val x)) b (max (max val x) ?r)"
      using ac fold_max_ini [of "map minimax_val resto" "max val x"] by simp
    have "acota a b vf = acota a b (max (max val (minimax_val h)) ?r)"
      using paso_max [OF Cons.prems(2) Cons.prems(3) hx False vf ac'] .
    moreover have "val \<le> vf"
      using vf by simp
    ultimately show ?thesis
      using h b False plegado by (simp add: Let_def)
  qed
qed

lemma bucle_min_rev_valor:
  assumes hijos_ok: "\<And>h a b. h \<in> set pend \<Longrightarrow> a < b \<Longrightarrow>
      \<exists>x h' tr. alfa_beta_reverso h a b = Inr (Some x, h', tr)
        \<and> acota a b x = acota a b (minimax_val h)"
    and "b \<le> val" and "a < b"
  shows "\<exists>vf hs' tr. bucle_min_rev pend hechos val a b = Inr (vf, hs', tr) \<and> vf \<le> val
           \<and> acota a b vf = acota a b (fold min (map minimax_val pend) val)"
  using assms
proof (induction pend arbitrary: hechos val b)
  case Nil
  show ?case by simp
next
  case (Cons h resto)
  obtain x h' trh where h: "alfa_beta_reverso h a b = Inr (Some x, h', trh)"
    and hx: "acota a b x = acota a b (minimax_val h)"
    using Cons.prems(1) [of h a b] Cons.prems(3) by auto
  let ?r = "fold min (map minimax_val resto) MasInf"
  have plegado: "fold min (map minimax_val (h # resto)) val = min (min val (minimax_val h)) ?r"
    using fold_min_ini [of "map minimax_val resto" "min (minimax_val h) val"]
    by (simp add: min.commute)
  show ?case
  proof (cases "min b (min val x) \<le> a")
    case True
    have "acota a b (min val x) = acota a b (min (min val (minimax_val h)) ?r)"
      using corte_min [OF Cons.prems(2) Cons.prems(3) hx True] .
    then show ?thesis
      using h True plegado by (simp add: Let_def)
  next
    case False
    have menor: "a < min b (min val x)"
      using False by (simp only: not_le)
    have "\<exists>vf hs' tr. bucle_min_rev resto (h' # hechos) (min val x) a (min b (min val x)) =
              Inr (vf, hs', tr)
            \<and> vf \<le> min val x
            \<and> acota a (min b (min val x)) vf =
                acota a (min b (min val x)) (fold min (map minimax_val resto) (min val x))"
    proof -
      have hijos_resto: "\<exists>x h' tr. alfa_beta_reverso h a b = Inr (Some x, h', tr)
          \<and> acota a b x = acota a b (minimax_val h)" if "h \<in> set resto" "a < b" for h a b
        using that Cons.prems(1) [of h a b] by simp
      have pre: "min b (min val x) \<le> min val x"
        by (rule min.cobounded2)
      show ?thesis
        using Cons.IH [OF hijos_resto pre menor, of "h' # hechos"] by simp
    qed
    then obtain vf hs' tr where
      b: "bucle_min_rev resto (h' # hechos) (min val x) a (min b (min val x)) = Inr (vf, hs', tr)"
      and vf: "vf \<le> min val x"
      and ac: "acota a (min b (min val x)) vf =
                acota a (min b (min val x)) (fold min (map minimax_val resto) (min val x))"
      by blast
    have ac': "acota a (min b (min val x)) vf = acota a (min b (min val x)) (min (min val x) ?r)"
      using ac fold_min_ini [of "map minimax_val resto" "min val x"] by simp
    have "acota a b vf = acota a b (min (min val (minimax_val h)) ?r)"
      using paso_min [OF Cons.prems(2) Cons.prems(3) hx False vf ac'] .
    moreover have "vf \<le> val"
      using vf by simp
    ultimately show ?thesis
      using h b False plegado by (simp add: Let_def)
  qed
qed

lemma fold_max_rev: "fold max (rev xs) (s::ext) = fold max xs s"
proof -
  have "fold max (rev xs) = (fold max xs :: ext \<Rightarrow> ext)"
    by (rule fold_rev) (auto simp: fun_eq_iff max.left_commute)
  then show ?thesis by simp
qed

lemma fold_min_rev: "fold min (rev xs) (s::ext) = fold min xs s"
proof -
  have "fold min (rev xs) = (fold min xs :: ext \<Rightarrow> ext)"
    by (rule fold_rev) (auto simp: fun_eq_iff min.left_commute)
  then show ?thesis by simp
qed

lemma alfa_beta_reverso_valor:
  "bien_formado n \<Longrightarrow> a < b \<Longrightarrow>
     \<exists>x n' tr. alfa_beta_reverso n a b = Inr (Some x, n', tr)
       \<and> acota a b x = acota a b (minimax_val n)"
proof (induction n arbitrary: a b)
  case (Nodo i v hs m p)
  show ?case
  proof (cases "hs = []")
    case True
    then show ?thesis using Nodo.prems(1) by auto
  next
    case False
    have hijos_ok: "\<And>h a b. h \<in> set (rev hs) \<Longrightarrow> a < b \<Longrightarrow>
      \<exists>x h' tr. alfa_beta_reverso h a b = Inr (Some x, h', tr)
        \<and> acota a b x = acota a b (minimax_val h)"
      using Nodo.IH bien_formado_hijos [OF Nodo.prems(1) False] by simp
    show ?thesis
    proof (cases m)
      case True
      obtain vf hs' tr where "bucle_max_rev (rev hs) [] MenosInf a b = Inr (vf, hs', tr)"
        and "acota a b vf = acota a b (fold max (map minimax_val (rev hs)) MenosInf)"
        using bucle_max_rev_valor [OF hijos_ok, of "rev hs" MenosInf a b "[]"] Nodo.prems(2)
        by auto
      then show ?thesis using False True by (simp add: rev_map [symmetric] fold_max_rev)
    next
      case no_max: False
      obtain vf hs' tr where "bucle_min_rev (rev hs) [] MasInf a b = Inr (vf, hs', tr)"
        and "acota a b vf = acota a b (fold min (map minimax_val (rev hs)) MasInf)"
        using bucle_min_rev_valor [OF hijos_ok, of "rev hs" b MasInf a "[]"] Nodo.prems(2)
        by auto
      then show ?thesis using False no_max by (simp add: rev_map [symmetric] fold_min_rev)
    qed
  qed
qed

text \<open>
  C2. On a well-formed tree, the left-to-right evaluation started with \<open>alfa = -inf\<close> and
  \<open>beta = +inf\<close> returns, without error, exactly the value of the full minimax traversal
  of the tree.
\<close>

theorem alfa_beta_es_minimax:
  "bien_formado t \<Longrightarrow>
     \<exists>x t' tr. minimax t = Some x \<and> alfa_beta t MenosInf MasInf = Inr (minimax t, t', tr)"
proof -
  assume bf: "bien_formado t"
  obtain x t' tr where "alfa_beta t MenosInf MasInf = Inr (Some x, t', tr)"
    and "acota MenosInf MasInf x = acota MenosInf MasInf (minimax_val t)"
    using alfa_beta_valor [OF bf, of MenosInf MasInf] by auto
  then show ?thesis
    using minimax_minimax_val [OF bf] by simp
qed

theorem alfa_beta_es_minimax_testigo:
  "bien_formado arbol_escenario \<and> minimax arbol_escenario = Some (Fin 3)
   \<and> (\<exists>t' tr. alfa_beta arbol_escenario MenosInf MasInf = Inr (Some (Fin 3), t', tr))"
  using alfa_beta_es_minimax [of arbol_escenario]
  by (simp add: arbol_escenario_def hoja_def max_def min_def)

text \<open>
  C3. On a well-formed tree, the left-to-right and the right-to-left evaluation, each
  started with \<open>alfa = -inf\<close> and \<open>beta = +inf\<close> on the same tree (the source runs them on
  a tree and on its deep copy), both return a value, and the two values are the same.
\<close>

theorem mismo_valor_en_ambos_ordenes:
  "bien_formado t \<Longrightarrow>
     \<exists>x t1 tr1 t2 tr2.
        alfa_beta t MenosInf MasInf = Inr (Some x, t1, tr1)
      \<and> alfa_beta_reverso t MenosInf MasInf = Inr (Some x, t2, tr2)"
proof -
  assume bf: "bien_formado t"
  obtain x t1 tr1 where 1: "alfa_beta t MenosInf MasInf = Inr (Some x, t1, tr1)"
    and x: "acota MenosInf MasInf x = acota MenosInf MasInf (minimax_val t)"
    using alfa_beta_valor [OF bf, of MenosInf MasInf] by auto
  obtain y t2 tr2 where 2: "alfa_beta_reverso t MenosInf MasInf = Inr (Some y, t2, tr2)"
    and y: "acota MenosInf MasInf y = acota MenosInf MasInf (minimax_val t)"
    using alfa_beta_reverso_valor [OF bf, of MenosInf MasInf] by auto
  have "x = y" using x y by simp
  then show ?thesis using 1 2 by simp
qed

theorem mismo_valor_en_ambos_ordenes_testigo:
  "bien_formado arbol_2935
   \<and> (\<exists>x t1 tr1 t2 tr2.
        alfa_beta arbol_2935 MenosInf MasInf = Inr (Some x, t1, tr1)
      \<and> alfa_beta_reverso arbol_2935 MenosInf MasInf = Inr (Some x, t2, tr2)
      \<and> filter podado (hojas t1) \<noteq> filter podado (hojas t2))"
  using mismo_valor_en_ambos_ordenes [of arbol_2935]
  by (simp add: arbol_2935_def hoja_def max_def min_def)

section \<open>The cases of a successful evaluation\<close>

lemma bucle_max_Cons_Inr:
  assumes "bucle_max (h # resto) k val a b = Inr (vf, hs', tr)"
  obtains (corte) x h' trh where "alfa_beta h a b = Inr (Some x, h', trh)"
      and "b \<le> max a (max val x)" and "vf = max val x"
      and "hs' = h' # map marca_podado resto" and "tr = map ((#) k) trh"
  | (sigue) x h' trh resto' tr' where "alfa_beta h a b = Inr (Some x, h', trh)"
      and "\<not> b \<le> max a (max val x)"
      and "bucle_max resto (Suc k) (max val x) (max a (max val x)) b = Inr (vf, resto', tr')"
      and "hs' = h' # resto'" and "tr = map ((#) k) trh @ tr'"
  using assms
  by (auto simp: Let_def split: sum.splits option.splits if_splits prod.splits)

lemma bucle_min_Cons_Inr:
  assumes "bucle_min (h # resto) k val a b = Inr (vf, hs', tr)"
  obtains (corte) x h' trh where "alfa_beta h a b = Inr (Some x, h', trh)"
      and "min b (min val x) \<le> a" and "vf = min val x"
      and "hs' = h' # map marca_podado resto" and "tr = map ((#) k) trh"
  | (sigue) x h' trh resto' tr' where "alfa_beta h a b = Inr (Some x, h', trh)"
      and "\<not> min b (min val x) \<le> a"
      and "bucle_min resto (Suc k) (min val x) a (min b (min val x)) = Inr (vf, resto', tr')"
      and "hs' = h' # resto'" and "tr = map ((#) k) trh @ tr'"
  using assms
  by (auto simp: Let_def split: sum.splits option.splits if_splits prod.splits)

lemma bucle_max_rev_Cons_Inr:
  assumes "bucle_max_rev (h # pend) hechos val a b = Inr (vf, hs', tr)"
  obtains (corte) x h' trh where "alfa_beta_reverso h a b = Inr (Some x, h', trh)"
      and "b \<le> max a (max val x)" and "vf = max val x"
      and "hs' = rev pend @ h' # map marca_podado hechos"
      and "tr = map ((#) (length pend)) trh"
  | (sigue) x h' trh tr' where "alfa_beta_reverso h a b = Inr (Some x, h', trh)"
      and "\<not> b \<le> max a (max val x)"
      and "bucle_max_rev pend (h' # hechos) (max val x) (max a (max val x)) b =
             Inr (vf, hs', tr')"
      and "tr = map ((#) (length pend)) trh @ tr'"
  using assms
  by (auto simp: Let_def split: sum.splits option.splits if_splits prod.splits)

lemma bucle_min_rev_Cons_Inr:
  assumes "bucle_min_rev (h # pend) hechos val a b = Inr (vf, hs', tr)"
  obtains (corte) x h' trh where "alfa_beta_reverso h a b = Inr (Some x, h', trh)"
      and "min b (min val x) \<le> a" and "vf = min val x"
      and "hs' = rev pend @ h' # map marca_podado hechos"
      and "tr = map ((#) (length pend)) trh"
  | (sigue) x h' trh tr' where "alfa_beta_reverso h a b = Inr (Some x, h', trh)"
      and "\<not> min b (min val x) \<le> a"
      and "bucle_min_rev pend (h' # hechos) (min val x) a (min b (min val x)) =
             Inr (vf, hs', tr')"
      and "tr = map ((#) (length pend)) trh @ tr'"
  using assms
  by (auto simp: Let_def split: sum.splits option.splits if_splits prod.splits)

lemma alfa_beta_Inr:
  assumes "alfa_beta (Nodo i v hs m p) a b = Inr (x, n', tr)"
  obtains (hoja) "hs = []" and "x = v" and "n' = Nodo i v hs m p" and "tr = [[]]"
  | (maxi) vf hs' tr' where "hs \<noteq> []" and "m"
      and "bucle_max hs 0 MenosInf a b = Inr (vf, hs', tr')"
      and "x = Some vf" and "n' = Nodo i (Some vf) hs' m p" and "tr = [] # tr'"
  | (mini) vf hs' tr' where "hs \<noteq> []" and "\<not> m"
      and "bucle_min hs 0 MasInf a b = Inr (vf, hs', tr')"
      and "x = Some vf" and "n' = Nodo i (Some vf) hs' m p" and "tr = [] # tr'"
  using assms
  by (auto split: sum.splits if_splits prod.splits)

lemma alfa_beta_reverso_Inr:
  assumes "alfa_beta_reverso (Nodo i v hs m p) a b = Inr (x, n', tr)"
  obtains (hoja) "hs = []" and "x = v" and "n' = Nodo i v hs m p" and "tr = [[]]"
  | (maxi) vf hs' tr' where "hs \<noteq> []" and "m"
      and "bucle_max_rev (rev hs) [] MenosInf a b = Inr (vf, hs', tr')"
      and "x = Some vf" and "n' = Nodo i (Some vf) hs' m p" and "tr = [] # tr'"
  | (mini) vf hs' tr' where "hs \<noteq> []" and "\<not> m"
      and "bucle_min_rev (rev hs) [] MasInf a b = Inr (vf, hs', tr')"
      and "x = Some vf" and "n' = Nodo i (Some vf) hs' m p" and "tr = [] # tr'"
  using assms
  by (auto split: sum.splits if_splits prod.splits)

section \<open>Every evaluation only evolves the tree\<close>

lemma evoluciona_marcas: "list_all2 evoluciona hs (map marca_podado hs)"
  by (induction hs) (auto intro: evoluciona.intros)

lemma evoluciona_marcas_tras: 
  "list_all2 evoluciona orig hs \<Longrightarrow> list_all2 evoluciona orig (map marca_podado hs)"
  by (induction orig hs rule: list_all2_induct) (auto intro: evoluciona.intros)

lemma bucle_max_evoluciona:
  assumes "\<And>h a b x h' tr. h \<in> set hs \<Longrightarrow> alfa_beta h a b = Inr (x, h', tr) \<Longrightarrow> evoluciona h h'"
    and "bucle_max hs k val a b = Inr (vf, hs', tr)"
  shows "list_all2 evoluciona hs hs'"
  using assms
proof (induction hs arbitrary: k val a hs' tr)
  case Nil
  then show ?case by simp
next
  case (Cons h resto)
  from Cons.prems(2) show ?case
  proof (cases rule: bucle_max_Cons_Inr)
    case (corte x h' trh)
    then show ?thesis
      using Cons.prems(1) [of h a b "Some x" h' trh] by (simp add: evoluciona_marcas)
  next
    case (sigue x h' trh resto' tr')
    have "list_all2 evoluciona resto resto'"
      using Cons.IH [OF _ sigue(3)] Cons.prems(1) by simp
    then show ?thesis
      using sigue Cons.prems(1) [of h a b "Some x" h' trh] by simp
  qed
qed

lemma bucle_min_evoluciona:
  assumes "\<And>h a b x h' tr. h \<in> set hs \<Longrightarrow> alfa_beta h a b = Inr (x, h', tr) \<Longrightarrow> evoluciona h h'"
    and "bucle_min hs k val a b = Inr (vf, hs', tr)"
  shows "list_all2 evoluciona hs hs'"
  using assms
proof (induction hs arbitrary: k val b hs' tr)
  case Nil
  then show ?case by simp
next
  case (Cons h resto)
  from Cons.prems(2) show ?case
  proof (cases rule: bucle_min_Cons_Inr)
    case (corte x h' trh)
    then show ?thesis
      using Cons.prems(1) [of h a b "Some x" h' trh] by (simp add: evoluciona_marcas)
  next
    case (sigue x h' trh resto' tr')
    have "list_all2 evoluciona resto resto'"
      using Cons.IH [OF _ sigue(3)] Cons.prems(1) by simp
    then show ?thesis
      using sigue Cons.prems(1) [of h a b "Some x" h' trh] by simp
  qed
qed

lemma alfa_beta_evoluciona:
  "alfa_beta n a b = Inr (x, n', tr) \<Longrightarrow> evoluciona n n'"
proof (induction n arbitrary: a b x n' tr)
  case (Nodo i v hs m p)
  from Nodo.prems show ?case
  proof (cases rule: alfa_beta_Inr)
    case hoja
    then show ?thesis by (simp add: evoluciona.igual)
  next
    case (maxi vf hs' tr')
    have "list_all2 evoluciona hs hs'"
      using bucle_max_evoluciona [OF _ maxi(3)] Nodo.IH by blast
    then show ?thesis using maxi by (simp add: evoluciona.interno)
  next
    case (mini vf hs' tr')
    have "list_all2 evoluciona hs hs'"
      using bucle_min_evoluciona [OF _ mini(3)] Nodo.IH by blast
    then show ?thesis using mini by (simp add: evoluciona.interno)
  qed
qed

lemma bucle_max_rev_evoluciona:
  assumes "\<And>h a b x h' tr. h \<in> set pend \<Longrightarrow> alfa_beta_reverso h a b = Inr (x, h', tr)
             \<Longrightarrow> evoluciona h h'"
    and "list_all2 evoluciona orig hechos"
    and "bucle_max_rev pend hechos val a b = Inr (vf, hs', tr)"
  shows "list_all2 evoluciona (rev pend @ orig) hs'"
  using assms
proof (induction pend arbitrary: orig hechos val a hs' tr)
  case Nil
  then show ?case by simp
next
  case (Cons h resto)
  from Cons.prems(3) show ?case
  proof (cases rule: bucle_max_rev_Cons_Inr)
    case (corte x h' trh)
    have "evoluciona h h'"
      using Cons.prems(1) [of h a b "Some x" h' trh] corte(1) by simp
    then show ?thesis
      using corte(4) evoluciona_marcas_tras [OF Cons.prems(2)]
      by (auto simp: list_all2_appendI list_all2_refl evoluciona.igual)
  next
    case (sigue x h' trh tr')
    have "evoluciona h h'"
      using Cons.prems(1) [of h a b "Some x" h' trh] sigue(1) by simp
    then have "list_all2 evoluciona (h # orig) (h' # hechos)"
      using Cons.prems(2) by simp
    then have "list_all2 evoluciona (rev resto @ h # orig) hs'"
      using Cons.IH [OF _ _ sigue(3), of "h # orig"] Cons.prems(1) by simp
    then show ?thesis by simp
  qed
qed

lemma bucle_min_rev_evoluciona:
  assumes "\<And>h a b x h' tr. h \<in> set pend \<Longrightarrow> alfa_beta_reverso h a b = Inr (x, h', tr)
             \<Longrightarrow> evoluciona h h'"
    and "list_all2 evoluciona orig hechos"
    and "bucle_min_rev pend hechos val a b = Inr (vf, hs', tr)"
  shows "list_all2 evoluciona (rev pend @ orig) hs'"
  using assms
proof (induction pend arbitrary: orig hechos val b hs' tr)
  case Nil
  then show ?case by simp
next
  case (Cons h resto)
  from Cons.prems(3) show ?case
  proof (cases rule: bucle_min_rev_Cons_Inr)
    case (corte x h' trh)
    have "evoluciona h h'"
      using Cons.prems(1) [of h a b "Some x" h' trh] corte(1) by simp
    then show ?thesis
      using corte(4) evoluciona_marcas_tras [OF Cons.prems(2)]
      by (auto simp: list_all2_appendI list_all2_refl evoluciona.igual)
  next
    case (sigue x h' trh tr')
    have "evoluciona h h'"
      using Cons.prems(1) [of h a b "Some x" h' trh] sigue(1) by simp
    then have "list_all2 evoluciona (h # orig) (h' # hechos)"
      using Cons.prems(2) by simp
    then have "list_all2 evoluciona (rev resto @ h # orig) hs'"
      using Cons.IH [OF _ _ sigue(3), of "h # orig"] Cons.prems(1) by simp
    then show ?thesis by simp
  qed
qed

lemma alfa_beta_reverso_evoluciona:
  "alfa_beta_reverso n a b = Inr (x, n', tr) \<Longrightarrow> evoluciona n n'"
proof (induction n arbitrary: a b x n' tr)
  case (Nodo i v hs m p)
  have hijos: "\<And>h a b x h' tr. h \<in> set (rev hs) \<Longrightarrow> alfa_beta_reverso h a b = Inr (x, h', tr)
             \<Longrightarrow> evoluciona h h'"
    using Nodo.IH by simp
  from Nodo.prems show ?case
  proof (cases rule: alfa_beta_reverso_Inr)
    case hoja
    then show ?thesis by (simp add: evoluciona.igual)
  next
    case (maxi vf hs' tr')
    have "list_all2 evoluciona (rev (rev hs) @ []) hs'"
      using bucle_max_rev_evoluciona [where orig = "[]", OF hijos _ maxi(3)] by simp
    then show ?thesis using maxi by (simp add: evoluciona.interno)
  next
    case (mini vf hs' tr')
    have "list_all2 evoluciona (rev (rev hs) @ []) hs'"
      using bucle_min_rev_evoluciona [where orig = "[]", OF hijos _ mini(3)] by simp
    then show ?thesis using mini by (simp add: evoluciona.interno)
  qed
qed

lemma nodo_en_append:
  "nodo_en t (q @ r) = (case nodo_en t q of None \<Rightarrow> None | Some d \<Rightarrow> nodo_en d r)"
  by (induction q arbitrary: t) simp_all

lemma base_marca_podado [simp]: "base (marca_podado n) = base n"
  by (induction n) (simp add: map_idI cong: map_cong)

lemma marca_podado_idem [simp]: "marca_podado (marca_podado n) = marca_podado n"
  by (induction n) (simp cong: map_cong)

lemma todos_podados_marca [simp]: "todos_podados (marca_podado n)"
  by (induction n) (simp add: list_all_iff)

lemma todos_podados_cerrada: "todos_podados n \<Longrightarrow> poda_cerrada n"
  by (induction n) (simp add: list_all_iff)

lemma evoluciona_base: "evoluciona n n' \<Longrightarrow> base n' = base n"
proof (induction rule: evoluciona.induct)
  case (interno hs hs' i v m p v')
  have "map base hs' = map base hs"
    using interno(1) by (induction hs hs' rule: list_all2_induct) simp_all
  moreover have "hs' \<noteq> []"
    using interno(1,2) by (auto dest: list_all2_lengthD)
  ultimately show ?case using interno(2) by simp
qed simp_all

lemma evoluciona_podados:
  "evoluciona n n' \<Longrightarrow>
     (todos_podados n \<longrightarrow> todos_podados n') \<and> (poda_cerrada n \<longrightarrow> poda_cerrada n')"
proof (induction rule: evoluciona.induct)
  case (igual n)
  show ?case by simp
next
  case (marcado n n')
  show ?case by (simp add: todos_podados_cerrada)
next
  case (interno hs hs' i v m p v')
  have 1: "list_all todos_podados hs \<Longrightarrow> list_all todos_podados hs'"
    using interno(1) by (induction hs hs' rule: list_all2_induct) simp_all
  have 2: "list_all poda_cerrada hs \<Longrightarrow> list_all poda_cerrada hs'"
    using interno(1) by (induction hs hs' rule: list_all2_induct) simp_all
  show ?case using 1 2 by simp
qed

lemma todos_podados_iff:
  "todos_podados d = (\<forall>r e. nodo_en d r = Some e \<longrightarrow> podado e)"
proof (induction d)
  case (Nodo i v hs m p)
  show ?case
  proof
    assume tp: "todos_podados (Nodo i v hs m p)"
    show "\<forall>r e. nodo_en (Nodo i v hs m p) r = Some e \<longrightarrow> podado e"
    proof (intro allI impI)
      fix r e
      assume en: "nodo_en (Nodo i v hs m p) r = Some e"
      show "podado e"
      proof (cases r)
        case Nil
        then show ?thesis using en tp by auto
      next
        case (Cons k ks)
        then have k: "k < length hs" and ks: "nodo_en (hs ! k) ks = Some e"
          using en by (auto split: if_splits)
        have "todos_podados (hs ! k)"
          using tp k by (simp add: list_all_length)
        then show ?thesis
          using Nodo.IH [of "hs ! k"] k ks by auto
      qed
    qed
  next
    assume todos: "\<forall>r e. nodo_en (Nodo i v hs m p) r = Some e \<longrightarrow> podado e"
    have "p" using todos [rule_format, of "[]"] by simp
    moreover have "todos_podados h" if hh: "h \<in> set hs" for h
    proof -
      obtain k where k: "k < length hs" and h: "hs ! k = h"
        using hh by (auto simp: in_set_conv_nth)
      have "\<forall>r e. nodo_en h r = Some e \<longrightarrow> podado e"
        using todos [rule_format, of "k # r" for r] k h by simp
      then show ?thesis using Nodo.IH [OF hh] by simp
    qed
    ultimately show "todos_podados (Nodo i v hs m p)"
      by (simp add: list_all_iff)
  qed
qed

lemma poda_cerrada_iff:
  "poda_cerrada t = (\<forall>q d. nodo_en t q = Some d \<longrightarrow> podado d \<longrightarrow> todos_podados d)"
proof (induction t)
  case (Nodo i v hs m p)
  show ?case
  proof
    assume pc: "poda_cerrada (Nodo i v hs m p)"
    show "\<forall>q d. nodo_en (Nodo i v hs m p) q = Some d \<longrightarrow> podado d \<longrightarrow> todos_podados d"
    proof (intro allI impI)
      fix q d
      assume en: "nodo_en (Nodo i v hs m p) q = Some d" and pd: "podado d"
      show "todos_podados d"
      proof (cases q)
        case Nil
        then show ?thesis using en pd pc by auto
      next
        case (Cons k ks)
        then have k: "k < length hs" and ks: "nodo_en (hs ! k) ks = Some d"
          using en by (auto split: if_splits)
        have "poda_cerrada (hs ! k)"
          using pc k by (simp add: list_all_length)
        then show ?thesis
          using Nodo.IH [of "hs ! k"] k ks pd by auto
      qed
    qed
  next
    assume todos: "\<forall>q d. nodo_en (Nodo i v hs m p) q = Some d \<longrightarrow> podado d \<longrightarrow> todos_podados d"
    have "p \<Longrightarrow> list_all todos_podados hs"
      using todos [rule_format, of "[]"] by simp
    moreover have "poda_cerrada h" if hh: "h \<in> set hs" for h
    proof -
      obtain k where k: "k < length hs" and h: "hs ! k = h"
        using hh by (auto simp: in_set_conv_nth)
      have "\<forall>q d. nodo_en h q = Some d \<longrightarrow> podado d \<longrightarrow> todos_podados d"
        using todos [rule_format, of "k # q" for q] k h by simp
      then show ?thesis using Nodo.IH [OF hh] by simp
    qed
    ultimately show "poda_cerrada (Nodo i v hs m p)"
      by (simp add: list_all_iff)
  qed
qed

lemma poda_propagada_iff: "poda_propagada t = poda_cerrada t"
  unfolding poda_propagada_def poda_cerrada_iff todos_podados_iff nodo_en_append
  by (auto split: option.splits)

section \<open>Leaves are left as they are\<close>

lemma hijos_base: "hijos (base t) = map base (hijos t)"
  by (cases t) simp

lemma nodo_en_base: "nodo_en (base t) q = map_option base (nodo_en t q)"
  by (induction q arbitrary: t) (simp_all add: hijos_base)

lemma base_misma_posicion:
  assumes "base t' = base t" and "nodo_en t q = Some l"
  shows "\<exists>l'. nodo_en t' q = Some l' \<and> base l' = base l"
proof -
  have "map_option base (nodo_en t' q) = map_option base (nodo_en t q)"
    using assms(1) nodo_en_base [of t' q] nodo_en_base [of t q] by simp
  then show ?thesis using assms(2) by auto
qed

lemma base_hoja:
  assumes "base l' = base l" and "es_hoja l"
  shows "es_hoja l' \<and> valor l' = valor l \<and> ident l' = ident l \<and> es_max l' = es_max l"
  using assms by (cases l; cases l') (auto simp: es_hoja_def split: if_splits)

lemma hojas_conservadas:
  assumes "base t' = base t" and "nodo_en t q = Some l" and "es_hoja l"
  shows "\<exists>l'. nodo_en t' q = Some l' \<and> es_hoja l' \<and> valor l' = valor l
           \<and> ident l' = ident l \<and> es_max l' = es_max l"
proof -
  obtain l' where "nodo_en t' q = Some l'" and "base l' = base l"
    using base_misma_posicion [OF assms(1,2)] by blast
  then show ?thesis using base_hoja [OF _ assms(3)] by blast
qed

lemma evaluacion_base:
  "alfa_beta t a b = Inr (x, t', tr) \<or> alfa_beta_reverso t a b = Inr (x, t', tr) \<Longrightarrow>
     base t' = base t"
  using alfa_beta_evoluciona alfa_beta_reverso_evoluciona evoluciona_base by blast

text \<open>
  C6. A call on a leaf, in either order, returns the stored value and leaves the leaf as
  it is. After an evaluation of a tree in either order, with any bounds, every leaf of the
  tree stands at the same position in the result, is still a leaf and has the same
  \<open>valor\<close> (and the same \<open>id\<close> and \<open>es_max\<close>), and the result has no other leaves: the
  only \<open>valor\<close> fields written are those of internal nodes.
\<close>

theorem hojas_intactas:
  "(es_hoja n \<longrightarrow>
      alfa_beta n a b = Inr (valor n, n, [[]])
    \<and> alfa_beta_reverso n a b = Inr (valor n, n, [[]]))
   \<and> (alfa_beta t a b = Inr (x, t', tr) \<or> alfa_beta_reverso t a b = Inr (x, t', tr) \<longrightarrow>
        (\<forall>q l. nodo_en t q = Some l \<longrightarrow> es_hoja l \<longrightarrow>
           (\<exists>l'. nodo_en t' q = Some l' \<and> es_hoja l' \<and> valor l' = valor l
                 \<and> ident l' = ident l \<and> es_max l' = es_max l))
      \<and> (\<forall>q l'. nodo_en t' q = Some l' \<longrightarrow> es_hoja l' \<longrightarrow>
           (\<exists>l. nodo_en t q = Some l \<and> es_hoja l \<and> valor l = valor l')))"
proof (intro conjI impI allI)
  assume "es_hoja n"
  then show "alfa_beta n a b = Inr (valor n, n, [[]])"
    by (cases n) (simp add: es_hoja_def)
next
  assume "es_hoja n"
  then show "alfa_beta_reverso n a b = Inr (valor n, n, [[]])"
    by (cases n) (simp add: es_hoja_def)
next
  fix q l
  assume "alfa_beta t a b = Inr (x, t', tr) \<or> alfa_beta_reverso t a b = Inr (x, t', tr)"
    and "nodo_en t q = Some l" and "es_hoja l"
  then show "\<exists>l'. nodo_en t' q = Some l' \<and> es_hoja l' \<and> valor l' = valor l
                 \<and> ident l' = ident l \<and> es_max l' = es_max l"
    using hojas_conservadas [OF evaluacion_base] by blast
next
  fix q l'
  assume ev: "alfa_beta t a b = Inr (x, t', tr) \<or> alfa_beta_reverso t a b = Inr (x, t', tr)"
    and en: "nodo_en t' q = Some l'" and hoja: "es_hoja l'"
  have "base t = base t'"
    using evaluacion_base [OF ev] by simp
  then show "\<exists>l. nodo_en t q = Some l \<and> es_hoja l \<and> valor l = valor l'"
    using hojas_conservadas [OF _ en hoja] by blast
qed

theorem hojas_intactas_testigo:
  "es_hoja (hoja 6 9 True)
   \<and> alfa_beta (hoja 6 9 True) MenosInf MasInf = Inr (Some (Fin 9), hoja 6 9 True, [[]])
   \<and> alfa_beta_reverso (hoja 6 9 True) MenosInf MasInf = Inr (Some (Fin 9), hoja 6 9 True, [[]])
   \<and> alfa_beta_reverso arbol_2935 MenosInf MasInf =
        Inr (Some (Fin 3), arbol_2935_reverso, [[], [1], [1, 1], [1, 0], [0], [0, 1], [0, 0]])
   \<and> nodo_en arbol_2935 [0, 1] = Some (hoja 3 9 True)
   \<and> (\<exists>l'. nodo_en arbol_2935_reverso [0, 1] = Some l' \<and> es_hoja l'
          \<and> valor l' = Some (Fin 9) \<and> podado l')"
  using hojas_intactas [where n = "hoja 6 9 True" and a = MenosInf and b = MasInf
      and t = arbol_2935 and x = "Some (Fin 3)" and t' = arbol_2935_reverso
      and tr = "[[], [1], [1, 1], [1, 0], [0], [0, 1], [0, 0]]"]
  by (simp add: arbol_2935_def arbol_2935_reverso_def hoja_def es_hoja_def max_def min_def)

section \<open>Marks are propagated\<close>

lemma hijos_marca: "hijos (marca_podado t) = map marca_podado (hijos t)"
  by (cases t) simp

lemma podado_marca [simp]: "podado (marca_podado t)"
  by (cases t) simp

lemma nodo_en_marca: "nodo_en (marca_podado t) q = map_option marca_podado (nodo_en t q)"
  by (induction q arbitrary: t) (simp_all add: hijos_marca)

lemma llamadas_marca_hijos_ok:
  assumes "\<And>h. h \<in> set hs \<Longrightarrow>
      distinct (llamadas_marca h) \<and> set (llamadas_marca h) = {q. nodo_en h q \<noteq> None}"
  shows "distinct (llamadas_marca_hijos hs k)
     \<and> set (llamadas_marca_hijos hs k) =
         {q. \<exists>j r. q = (k + j) # r \<and> j < length hs \<and> nodo_en (hs ! j) r \<noteq> None}"
  using assms
proof (induction hs arbitrary: k)
  case Nil
  show ?case by simp
next
  case (Cons h resto)
  have h: "distinct (llamadas_marca h)" "set (llamadas_marca h) = {q. nodo_en h q \<noteq> None}"
    using Cons.prems [of h] by simp_all
  have r: "distinct (llamadas_marca_hijos resto (Suc k))"
    "set (llamadas_marca_hijos resto (Suc k)) =
       {q. \<exists>j r. q = (Suc k + j) # r \<and> j < length resto \<and> nodo_en (resto ! j) r \<noteq> None}"
    using Cons.IH [of "Suc k"] Cons.prems by simp_all
  have d1: "distinct (map ((#) k) (llamadas_marca h))"
    using h(1) by (simp add: distinct_map)
  have disj: "set (map ((#) k) (llamadas_marca h)) \<inter> set (llamadas_marca_hijos resto (Suc k)) = {}"
    unfolding r(2) by auto
  have conj: "set (map ((#) k) (llamadas_marca h)) \<union> set (llamadas_marca_hijos resto (Suc k)) =
      {q. \<exists>j r. q = (k + j) # r \<and> j < length (h # resto) \<and> nodo_en ((h # resto) ! j) r \<noteq> None}"
    (is "?A \<union> ?B = ?C")
  proof (intro set_eqI iffI)
    fix q assume "q \<in> ?A \<union> ?B"
    then consider "q \<in> ?A" | "q \<in> ?B" by blast
    then show "q \<in> ?C"
    proof cases
      case 1
      then obtain r where "q = k # r" "nodo_en h r \<noteq> None"
        using h(2) by auto
      then have "q = (k + 0) # r \<and> 0 < length (h # resto) \<and> nodo_en ((h # resto) ! 0) r \<noteq> None"
        by simp
      then show ?thesis by blast
    next
      case 2
      then obtain j r where "q = (Suc k + j) # r" "j < length resto" "nodo_en (resto ! j) r \<noteq> None"
        unfolding r(2) by blast
      then have "q = (k + Suc j) # r \<and> Suc j < length (h # resto)
          \<and> nodo_en ((h # resto) ! Suc j) r \<noteq> None"
        by simp
      then show ?thesis by blast
    qed
  next
    fix q assume "q \<in> ?C"
    then obtain j r where q: "q = (k + j) # r" "j < length (h # resto)"
      "nodo_en ((h # resto) ! j) r \<noteq> None"
      by blast
    show "q \<in> ?A \<union> ?B"
    proof (cases j)
      case 0
      then show ?thesis using q h(2) by auto
    next
      case (Suc j')
      then have "q = (Suc k + j') # r \<and> j' < length resto \<and> nodo_en (resto ! j') r \<noteq> None"
        using q by simp
      then have "q \<in> ?B" unfolding r(2) by blast
      then show ?thesis by blast
    qed
  qed
  show ?case
    using d1 r(1) disj conj by simp
qed

lemma llamadas_marca_ok:
  "distinct (llamadas_marca n) \<and> set (llamadas_marca n) = {q. nodo_en n q \<noteq> None}"
proof (induction n)
  case (Nodo i v hs m p)
  have hs: "distinct (llamadas_marca_hijos hs 0)"
    "set (llamadas_marca_hijos hs 0) =
       {q. \<exists>j r. q = (0 + j) # r \<and> j < length hs \<and> nodo_en (hs ! j) r \<noteq> None}"
    using llamadas_marca_hijos_ok [of hs 0] Nodo.IH by simp_all
  have "{q. nodo_en (Nodo i v hs m p) q \<noteq> None} =
      insert [] {q. \<exists>j r. q = (0 + j) # r \<and> j < length hs \<and> nodo_en (hs ! j) r \<noteq> None}"
    (is "?A = ?B")
  proof (intro set_eqI iffI)
    fix q assume "q \<in> ?A"
    then show "q \<in> ?B" by (cases q) (auto split: if_splits)
  next
    fix q assume "q \<in> ?B"
    then show "q \<in> ?A" by auto
  qed
  moreover have "[] \<notin> set (llamadas_marca_hijos hs 0)"
    unfolding hs(2) by simp
  ultimately show ?case
    using hs by (cases "hs = []") auto
qed

lemma recien_creado_cerrada: "recien_creado t \<Longrightarrow> poda_cerrada t"
  by (induction t) (auto simp: list_all_iff split: if_splits)

lemma evaluacion_propagada:
  assumes "alfa_beta t a b = Inr (x, t', tr) \<or> alfa_beta_reverso t a b = Inr (x, t', tr)"
    and "poda_propagada t"
  shows "poda_propagada t'"
  using assms alfa_beta_evoluciona alfa_beta_reverso_evoluciona evoluciona_podados
  unfolding poda_propagada_iff by blast

text \<open>
  C5. \<open>marca_podado\<close> sets \<open>podado\<close> on every node of the subtree it is applied to, and
  it is called exactly once on each node of that subtree. A tree as the generator leaves
  it has the marks propagated (it has no marks), and an evaluation in either order, with
  any bounds, of a tree whose marks are propagated gives a tree whose marks are
  propagated: every descendant of a node with \<open>podado = True\<close> has \<open>podado = True\<close>. On a
  well-formed tree both evaluations from \<open>-inf\<close> and \<open>+inf\<close> return such a tree.
\<close>

theorem poda_se_propaga:
  "(\<forall>q d. nodo_en n q = Some d \<longrightarrow>
       (\<exists>d'. nodo_en (marca_podado n) q = Some d' \<and> podado d'))
   \<and> distinct (llamadas_marca n) \<and> set (llamadas_marca n) = {q. nodo_en n q \<noteq> None}
   \<and> (recien_creado t \<longrightarrow> poda_propagada t)
   \<and> (poda_propagada t \<longrightarrow>
        alfa_beta t a b = Inr (x, t', tr) \<or> alfa_beta_reverso t a b = Inr (x, t', tr) \<longrightarrow>
        poda_propagada t')
   \<and> (poda_propagada t \<longrightarrow> bien_formado t \<longrightarrow>
        (\<exists>y u tu. alfa_beta t MenosInf MasInf = Inr (y, u, tu) \<and> poda_propagada u)
      \<and> (\<exists>y u tu. alfa_beta_reverso t MenosInf MasInf = Inr (y, u, tu) \<and> poda_propagada u))"
proof (intro conjI impI allI)
  fix q d assume "nodo_en n q = Some d"
  then show "\<exists>d'. nodo_en (marca_podado n) q = Some d' \<and> podado d'"
    by (simp add: nodo_en_marca)
next
  show "distinct (llamadas_marca n)"
    using llamadas_marca_ok by blast
next
  show "set (llamadas_marca n) = {q. nodo_en n q \<noteq> None}"
    using llamadas_marca_ok by blast
next
  assume "recien_creado t"
  then show "poda_propagada t"
    by (simp add: poda_propagada_iff recien_creado_cerrada)
next
  assume "poda_propagada t"
    and "alfa_beta t a b = Inr (x, t', tr) \<or> alfa_beta_reverso t a b = Inr (x, t', tr)"
  then show "poda_propagada t'"
    using evaluacion_propagada by blast
next
  assume pp: "poda_propagada t" and bf: "bien_formado t"
  obtain y u tu where ev: "alfa_beta t MenosInf MasInf = Inr (Some y, u, tu)"
    using alfa_beta_valor [OF bf, of MenosInf MasInf] by auto
  then have "poda_propagada u"
    using evaluacion_propagada pp by blast
  then show "\<exists>y u tu. alfa_beta t MenosInf MasInf = Inr (y, u, tu) \<and> poda_propagada u"
    using ev by blast
next
  assume pp: "poda_propagada t" and bf: "bien_formado t"
  obtain y u tu where ev: "alfa_beta_reverso t MenosInf MasInf = Inr (Some y, u, tu)"
    using alfa_beta_reverso_valor [OF bf, of MenosInf MasInf] by auto
  then have "poda_propagada u"
    using evaluacion_propagada pp by blast
  then show "\<exists>y u tu. alfa_beta_reverso t MenosInf MasInf = Inr (y, u, tu) \<and> poda_propagada u"
    using ev by blast
qed

theorem poda_se_propaga_testigo:
  "nodo_en arbol_prof3 [0, 1, 0] = Some (hoja 6 6 False)
   \<and> (\<exists>d'. nodo_en (marca_podado arbol_prof3) [0, 1, 0] = Some d' \<and> podado d')
   \<and> llamadas_marca (Nodo 1 None [hoja 2 3 True, hoja 3 5 True] False False) = [[], [0], [1]]
   \<and> recien_creado arbol_prof3 \<and> bien_formado arbol_prof3 \<and> poda_propagada arbol_prof3
   \<and> alfa_beta_reverso arbol_prof3 MenosInf MasInf =
        Inr (Some (Fin 3), arbol_prof3_reverso, traza_prof3_reverso)
   \<and> poda_propagada arbol_prof3_reverso
   \<and> map_option podado (nodo_en arbol_prof3_reverso [0, 1]) = Some True"
  using poda_se_propaga [where n = arbol_prof3 and t = arbol_prof3 and a = MenosInf
      and b = MasInf and x = "Some (Fin 3)" and t' = arbol_prof3_reverso
      and tr = traza_prof3_reverso]
  by (simp add: arbol_prof3_def arbol_prof3_reverso_def traza_prof3_reverso_def hoja_def
        max_def min_def)

section \<open>Evaluating a second time\<close>

lemma marca_podado_simple: "marca_podado (Nodo i v hs m p) = Nodo i v (map marca_podado hs) m True"
  by simp

lemma bucle_max_idem:
  assumes "\<And>h a b x h' tr. h \<in> set hs \<Longrightarrow> alfa_beta h a b = Inr (x, h', tr) \<Longrightarrow>
             alfa_beta h' a b = Inr (x, h', tr)"
    and "bucle_max hs k val a b = Inr (vf, hs', tr)"
  shows "bucle_max hs' k val a b = Inr (vf, hs', tr)"
  using assms
proof (induction hs arbitrary: k val a hs' tr)
  case Nil
  then show ?case by simp
next
  case (Cons h resto)
  from Cons.prems(2) show ?case
  proof (cases rule: bucle_max_Cons_Inr)
    case (corte x h' trh)
    have "alfa_beta h' a b = Inr (Some x, h', trh)"
      using Cons.prems(1) [of h a b "Some x" h' trh] corte(1) by simp
    then show ?thesis
      using corte by (simp add: Let_def comp_def)
  next
    case (sigue x h' trh resto' tr')
    have "alfa_beta h' a b = Inr (Some x, h', trh)"
      using Cons.prems(1) [of h a b "Some x" h' trh] sigue(1) by simp
    moreover have "bucle_max resto' (Suc k) (max val x) (max a (max val x)) b = Inr (vf, resto', tr')"
    proof -
      have resto_ok: "alfa_beta h' a b = Inr (x, h', tr)"
        if "h \<in> set resto" "alfa_beta h a b = Inr (x, h', tr)" for h a b x h' tr
        using that Cons.prems(1) [of h a b x h' tr] by simp
      show ?thesis
        using Cons.IH [OF resto_ok sigue(3)] .
    qed
    ultimately show ?thesis
      using sigue by (simp add: Let_def)
  qed
qed

lemma bucle_min_idem:
  assumes "\<And>h a b x h' tr. h \<in> set hs \<Longrightarrow> alfa_beta h a b = Inr (x, h', tr) \<Longrightarrow>
             alfa_beta h' a b = Inr (x, h', tr)"
    and "bucle_min hs k val a b = Inr (vf, hs', tr)"
  shows "bucle_min hs' k val a b = Inr (vf, hs', tr)"
  using assms
proof (induction hs arbitrary: k val b hs' tr)
  case Nil
  then show ?case by simp
next
  case (Cons h resto)
  from Cons.prems(2) show ?case
  proof (cases rule: bucle_min_Cons_Inr)
    case (corte x h' trh)
    have "alfa_beta h' a b = Inr (Some x, h', trh)"
      using Cons.prems(1) [of h a b "Some x" h' trh] corte(1) by simp
    then show ?thesis
      using corte by (simp add: Let_def comp_def)
  next
    case (sigue x h' trh resto' tr')
    have "alfa_beta h' a b = Inr (Some x, h', trh)"
      using Cons.prems(1) [of h a b "Some x" h' trh] sigue(1) by simp
    moreover have "bucle_min resto' (Suc k) (min val x) a (min b (min val x)) = Inr (vf, resto', tr')"
    proof -
      have resto_ok: "alfa_beta h' a b = Inr (x, h', tr)"
        if "h \<in> set resto" "alfa_beta h a b = Inr (x, h', tr)" for h a b x h' tr
        using that Cons.prems(1) [of h a b x h' tr] by simp
      show ?thesis
        using Cons.IH [OF resto_ok sigue(3)] .
    qed
    ultimately show ?thesis
      using sigue by (simp add: Let_def)
  qed
qed

lemma bucle_max_longitud:
  assumes "bucle_max hs k val a b = Inr (vf, hs', tr)"
  shows "length hs' = length hs"
proof -
  have "list_all2 evoluciona hs hs'"
    using assms by (rule bucle_max_evoluciona [rotated]) (erule alfa_beta_evoluciona)
  then show ?thesis by (simp add: list_all2_lengthD)
qed

lemma bucle_min_longitud:
  assumes "bucle_min hs k val a b = Inr (vf, hs', tr)"
  shows "length hs' = length hs"
proof -
  have "list_all2 evoluciona hs hs'"
    using assms by (rule bucle_min_evoluciona [rotated]) (erule alfa_beta_evoluciona)
  then show ?thesis by (simp add: list_all2_lengthD)
qed

lemma alfa_beta_idem:
  "alfa_beta n a b = Inr (x, n', tr) \<Longrightarrow> alfa_beta n' a b = Inr (x, n', tr)"
proof (induction n arbitrary: a b x n' tr)
  case (Nodo i v hs m p)
  from Nodo.prems show ?case
  proof (cases rule: alfa_beta_Inr)
    case hoja
    then show ?thesis by simp
  next
    case (maxi vf hs' tr')
    have "bucle_max hs' 0 MenosInf a b = Inr (vf, hs', tr')"
      using bucle_max_idem [OF _ maxi(3)] Nodo.IH by blast
    moreover have "hs' \<noteq> []"
      using bucle_max_longitud [OF maxi(3)] maxi(1) by auto
    ultimately show ?thesis using maxi by simp
  next
    case (mini vf hs' tr')
    have "bucle_min hs' 0 MasInf a b = Inr (vf, hs', tr')"
      using bucle_min_idem [OF _ mini(3)] Nodo.IH by blast
    moreover have "hs' \<noteq> []"
      using bucle_min_longitud [OF mini(3)] mini(1) by auto
    ultimately show ?thesis using mini by simp
  qed
qed

lemma bucle_max_rev_marcado:
  assumes "\<And>h a b x h' tr. h \<in> set pend \<Longrightarrow> alfa_beta_reverso h a b = Inr (x, h', tr) \<Longrightarrow>
             alfa_beta_reverso (marca_podado h) a b = Inr (x, marca_podado h', tr)"
    and "bucle_max_rev pend hechos val a b = Inr (vf, hs', tr)"
  shows "bucle_max_rev (map marca_podado pend) (map marca_podado hechos) val a b =
           Inr (vf, map marca_podado hs', tr)"
  using assms
proof (induction pend arbitrary: hechos val a hs' tr)
  case Nil
  then show ?case by simp
next
  case (Cons h resto)
  from Cons.prems(2) show ?case
  proof (cases rule: bucle_max_rev_Cons_Inr)
    case (corte x h' trh)
    have "alfa_beta_reverso (marca_podado h) a b = Inr (Some x, marca_podado h', trh)"
      using Cons.prems(1) [of h a b "Some x" h' trh] corte(1) by simp
    then show ?thesis
      using corte by (simp add: Let_def comp_def rev_map)
  next
    case (sigue x h' trh tr')
    have "alfa_beta_reverso (marca_podado h) a b = Inr (Some x, marca_podado h', trh)"
      using Cons.prems(1) [of h a b "Some x" h' trh] sigue(1) by simp
    moreover have "bucle_max_rev (map marca_podado resto) (map marca_podado (h' # hechos))
        (max val x) (max a (max val x)) b = Inr (vf, map marca_podado hs', tr')"
    proof -
      have resto_ok: "alfa_beta_reverso (marca_podado h) a b = Inr (x, marca_podado h', tr)"
        if "h \<in> set resto" "alfa_beta_reverso h a b = Inr (x, h', tr)" for h a b x h' tr
        using that Cons.prems(1) [of h a b x h' tr] by simp
      show ?thesis
        using Cons.IH [OF resto_ok sigue(3)] .
    qed
    ultimately show ?thesis
      using sigue by (simp add: Let_def)
  qed
qed

lemma bucle_min_rev_marcado:
  assumes "\<And>h a b x h' tr. h \<in> set pend \<Longrightarrow> alfa_beta_reverso h a b = Inr (x, h', tr) \<Longrightarrow>
             alfa_beta_reverso (marca_podado h) a b = Inr (x, marca_podado h', tr)"
    and "bucle_min_rev pend hechos val a b = Inr (vf, hs', tr)"
  shows "bucle_min_rev (map marca_podado pend) (map marca_podado hechos) val a b =
           Inr (vf, map marca_podado hs', tr)"
  using assms
proof (induction pend arbitrary: hechos val b hs' tr)
  case Nil
  then show ?case by simp
next
  case (Cons h resto)
  from Cons.prems(2) show ?case
  proof (cases rule: bucle_min_rev_Cons_Inr)
    case (corte x h' trh)
    have "alfa_beta_reverso (marca_podado h) a b = Inr (Some x, marca_podado h', trh)"
      using Cons.prems(1) [of h a b "Some x" h' trh] corte(1) by simp
    then show ?thesis
      using corte by (simp add: Let_def comp_def rev_map)
  next
    case (sigue x h' trh tr')
    have "alfa_beta_reverso (marca_podado h) a b = Inr (Some x, marca_podado h', trh)"
      using Cons.prems(1) [of h a b "Some x" h' trh] sigue(1) by simp
    moreover have "bucle_min_rev (map marca_podado resto) (map marca_podado (h' # hechos))
        (min val x) a (min b (min val x)) = Inr (vf, map marca_podado hs', tr')"
    proof -
      have resto_ok: "alfa_beta_reverso (marca_podado h) a b = Inr (x, marca_podado h', tr)"
        if "h \<in> set resto" "alfa_beta_reverso h a b = Inr (x, h', tr)" for h a b x h' tr
        using that Cons.prems(1) [of h a b x h' tr] by simp
      show ?thesis
        using Cons.IH [OF resto_ok sigue(3)] .
    qed
    ultimately show ?thesis
      using sigue by (simp add: Let_def)
  qed
qed

lemma alfa_beta_reverso_marcado:
  "alfa_beta_reverso n a b = Inr (x, n', tr) \<Longrightarrow>
     alfa_beta_reverso (marca_podado n) a b = Inr (x, marca_podado n', tr)"
proof (induction n arbitrary: a b x n' tr)
  case (Nodo i v hs m p)
  have hijos: "alfa_beta_reverso (marca_podado h) a b = Inr (x, marca_podado h', tr)"
    if "h \<in> set (rev hs)" "alfa_beta_reverso h a b = Inr (x, h', tr)" for h a b x h' tr
    using that Nodo.IH [of h a b x h' tr] by simp
  from Nodo.prems show ?case
  proof (cases rule: alfa_beta_reverso_Inr)
    case hoja
    then show ?thesis by simp
  next
    case (maxi vf hs' tr')
    have "bucle_max_rev (map marca_podado (rev hs)) (map marca_podado []) MenosInf a b =
            Inr (vf, map marca_podado hs', tr')"
      using bucle_max_rev_marcado [OF hijos maxi(3)] .
    then show ?thesis using maxi by (simp add: rev_map)
  next
    case (mini vf hs' tr')
    have "bucle_min_rev (map marca_podado (rev hs)) (map marca_podado []) MasInf a b =
            Inr (vf, map marca_podado hs', tr')"
      using bucle_min_rev_marcado [OF hijos mini(3)] .
    then show ?thesis using mini by (simp add: rev_map)
  qed
qed

lemma marca_si_False [simp]: "marca_si False = (\<lambda>n. n)"
  by (simp add: fun_eq_iff marca_si_def)

lemma marca_si_True [simp]: "marca_si True = marca_podado"
  by (simp add: fun_eq_iff marca_si_def)

lemma marca_si_idem [simp]: "marca_si c (marca_si c n) = marca_si c n"
  by (cases c) simp_all

lemma alfa_beta_reverso_marca_si:
  "alfa_beta_reverso n a b = Inr (x, n, tr) \<Longrightarrow>
     alfa_beta_reverso (marca_si c n) a b = Inr (x, marca_si c n, tr)"
  using alfa_beta_reverso_marcado [of n a b x n tr] by (cases c) simp_all

lemma bucle_max_rev_idem:
  assumes "\<And>h a b x h' tr. h \<in> set pend \<Longrightarrow> alfa_beta_reverso h a b = Inr (x, h', tr) \<Longrightarrow>
             alfa_beta_reverso h' a b = Inr (x, h', tr)"
    and "bucle_max_rev pend hechos val a b = Inr (vf, hs', tr)"
  shows "\<exists>pre c. length pre = length pend \<and> hs' = pre @ map (marca_si c) hechos
           \<and> (\<forall>otros. bucle_max_rev (rev pre) otros val a b =
                  Inr (vf, pre @ map (marca_si c) otros, tr))"
  using assms
proof (induction pend arbitrary: hechos val a hs' tr)
  case Nil
  then have "hs' = [] @ map (marca_si False) hechos
      \<and> (\<forall>otros. bucle_max_rev (rev []) otros val a b =
            Inr (vf, [] @ map (marca_si False) otros, tr))"
    by simp
  then show ?case by (metis length_0_conv list.size(3))
next
  case (Cons h resto)
  from Cons.prems(2) show ?case
  proof (cases rule: bucle_max_rev_Cons_Inr)
    case (corte x h' trh)
    have h': "alfa_beta_reverso h' a b = Inr (Some x, h', trh)"
      using Cons.prems(1) [of h a b "Some x" h' trh] corte(1) by simp
    let ?pre = "rev resto @ [h']"
    have "length ?pre = length (h # resto)" by simp
    moreover have "hs' = ?pre @ map (marca_si True) hechos"
      using corte(4) by simp
    moreover have "\<forall>otros. bucle_max_rev (rev ?pre) otros val a b =
        Inr (vf, ?pre @ map (marca_si True) otros, tr)"
      using h' corte by (simp add: Let_def)
    ultimately show ?thesis by blast
  next
    case (sigue x h' trh tr')
    have h': "alfa_beta_reverso h' a b = Inr (Some x, h', trh)"
      using Cons.prems(1) [of h a b "Some x" h' trh] sigue(1) by simp
    have resto_ok: "alfa_beta_reverso h' a b = Inr (x, h', tr)"
      if "h \<in> set resto" "alfa_beta_reverso h a b = Inr (x, h', tr)" for h a b x h' tr
      using that Cons.prems(1) [of h a b x h' tr] by simp
    have "\<exists>pre c. length pre = length resto \<and> hs' = pre @ map (marca_si c) (h' # hechos)
           \<and> (\<forall>otros. bucle_max_rev (rev pre) otros (max val x) (max a (max val x)) b =
                  Inr (vf, pre @ map (marca_si c) otros, tr'))"
      by (rule Cons.IH [OF _ sigue(3)]) (rule resto_ok)
    then obtain pre c where lon: "length pre = length resto"
      and hs': "hs' = pre @ map (marca_si c) (h' # hechos)"
      and otra: "\<And>otros. bucle_max_rev (rev pre) otros (max val x) (max a (max val x)) b =
                  Inr (vf, pre @ map (marca_si c) otros, tr')"
      by blast
    let ?pre = "pre @ [marca_si c h']"
    have "length ?pre = length (h # resto)" using lon by simp
    moreover have "hs' = ?pre @ map (marca_si c) hechos"
      using hs' by simp
    moreover have "\<forall>otros. bucle_max_rev (rev ?pre) otros val a b =
        Inr (vf, ?pre @ map (marca_si c) otros, tr)"
      using alfa_beta_reverso_marca_si [OF h', of c] sigue(2,4) lon
        otra [of "marca_si c h' # otros" for otros]
      by (simp add: Let_def)
    ultimately show ?thesis by blast
  qed
qed

lemma bucle_min_rev_idem:
  assumes "\<And>h a b x h' tr. h \<in> set pend \<Longrightarrow> alfa_beta_reverso h a b = Inr (x, h', tr) \<Longrightarrow>
             alfa_beta_reverso h' a b = Inr (x, h', tr)"
    and "bucle_min_rev pend hechos val a b = Inr (vf, hs', tr)"
  shows "\<exists>pre c. length pre = length pend \<and> hs' = pre @ map (marca_si c) hechos
           \<and> (\<forall>otros. bucle_min_rev (rev pre) otros val a b =
                  Inr (vf, pre @ map (marca_si c) otros, tr))"
  using assms
proof (induction pend arbitrary: hechos val b hs' tr)
  case Nil
  then have "hs' = [] @ map (marca_si False) hechos
      \<and> (\<forall>otros. bucle_min_rev (rev []) otros val a b =
            Inr (vf, [] @ map (marca_si False) otros, tr))"
    by simp
  then show ?case by (metis length_0_conv list.size(3))
next
  case (Cons h resto)
  from Cons.prems(2) show ?case
  proof (cases rule: bucle_min_rev_Cons_Inr)
    case (corte x h' trh)
    have h': "alfa_beta_reverso h' a b = Inr (Some x, h', trh)"
      using Cons.prems(1) [of h a b "Some x" h' trh] corte(1) by simp
    let ?pre = "rev resto @ [h']"
    have "length ?pre = length (h # resto)" by simp
    moreover have "hs' = ?pre @ map (marca_si True) hechos"
      using corte(4) by simp
    moreover have "\<forall>otros. bucle_min_rev (rev ?pre) otros val a b =
        Inr (vf, ?pre @ map (marca_si True) otros, tr)"
      using h' corte by (simp add: Let_def)
    ultimately show ?thesis by blast
  next
    case (sigue x h' trh tr')
    have h': "alfa_beta_reverso h' a b = Inr (Some x, h', trh)"
      using Cons.prems(1) [of h a b "Some x" h' trh] sigue(1) by simp
    have resto_ok: "alfa_beta_reverso h' a b = Inr (x, h', tr)"
      if "h \<in> set resto" "alfa_beta_reverso h a b = Inr (x, h', tr)" for h a b x h' tr
      using that Cons.prems(1) [of h a b x h' tr] by simp
    have "\<exists>pre c. length pre = length resto \<and> hs' = pre @ map (marca_si c) (h' # hechos)
           \<and> (\<forall>otros. bucle_min_rev (rev pre) otros (min val x) a (min b (min val x)) =
                  Inr (vf, pre @ map (marca_si c) otros, tr'))"
      by (rule Cons.IH [OF _ sigue(3)]) (rule resto_ok)
    then obtain pre c where lon: "length pre = length resto"
      and hs': "hs' = pre @ map (marca_si c) (h' # hechos)"
      and otra: "\<And>otros. bucle_min_rev (rev pre) otros (min val x) a (min b (min val x)) =
                  Inr (vf, pre @ map (marca_si c) otros, tr')"
      by blast
    let ?pre = "pre @ [marca_si c h']"
    have "length ?pre = length (h # resto)" using lon by simp
    moreover have "hs' = ?pre @ map (marca_si c) hechos"
      using hs' by simp
    moreover have "\<forall>otros. bucle_min_rev (rev ?pre) otros val a b =
        Inr (vf, ?pre @ map (marca_si c) otros, tr)"
      using alfa_beta_reverso_marca_si [OF h', of c] sigue(2,4) lon
        otra [of "marca_si c h' # otros" for otros]
      by (simp add: Let_def)
    ultimately show ?thesis by blast
  qed
qed

lemma alfa_beta_reverso_idem:
  "alfa_beta_reverso n a b = Inr (x, n', tr) \<Longrightarrow> alfa_beta_reverso n' a b = Inr (x, n', tr)"
proof (induction n arbitrary: a b x n' tr)
  case (Nodo i v hs m p)
  have hijos: "alfa_beta_reverso h' a b = Inr (x, h', tr)"
    if "h \<in> set (rev hs)" "alfa_beta_reverso h a b = Inr (x, h', tr)" for h a b x h' tr
    using that Nodo.IH [of h a b x h' tr] by simp
  from Nodo.prems show ?case
  proof (cases rule: alfa_beta_reverso_Inr)
    case hoja
    then show ?thesis by simp
  next
    case (maxi vf hs' tr')
    have "\<exists>pre c. length pre = length (rev hs) \<and> hs' = pre @ map (marca_si c) []
           \<and> (\<forall>otros. bucle_max_rev (rev pre) otros MenosInf a b =
                  Inr (vf, pre @ map (marca_si c) otros, tr'))"
      by (rule bucle_max_rev_idem [OF _ maxi(3)]) (rule hijos)
    then obtain pre c where "length pre = length (rev hs)" and "hs' = pre @ map (marca_si c) []"
      and "\<And>otros. bucle_max_rev (rev pre) otros MenosInf a b =
                  Inr (vf, pre @ map (marca_si c) otros, tr')"
      by blast
    then have "bucle_max_rev (rev hs') [] MenosInf a b = Inr (vf, hs', tr')" and "hs' \<noteq> []"
      using maxi(1) by auto
    then show ?thesis using maxi by simp
  next
    case (mini vf hs' tr')
    have "\<exists>pre c. length pre = length (rev hs) \<and> hs' = pre @ map (marca_si c) []
           \<and> (\<forall>otros. bucle_min_rev (rev pre) otros MasInf a b =
                  Inr (vf, pre @ map (marca_si c) otros, tr'))"
      by (rule bucle_min_rev_idem [OF _ mini(3)]) (rule hijos)
    then obtain pre c where "length pre = length (rev hs)" and "hs' = pre @ map (marca_si c) []"
      and "\<And>otros. bucle_min_rev (rev pre) otros MasInf a b =
                  Inr (vf, pre @ map (marca_si c) otros, tr')"
      by blast
    then have "bucle_min_rev (rev hs') [] MasInf a b = Inr (vf, hs', tr')" and "hs' \<noteq> []"
      using mini(1) by auto
    then show ?thesis using mini by simp
  qed
qed

text \<open>
  C8. The evaluators are functions of the tree and the bounds (the source reads nothing
  else), so a run has one result. Running an evaluator again on the tree it has left, with
  the same bounds and in the same order, returns the same value and leaves the tree as it
  was after the first run, node for node (and makes the same calls); on a well-formed
  tree the first run from \<open>-inf\<close> and \<open>+inf\<close> returns, in either order.
\<close>

theorem evaluacion_idempotente:
  "(alfa_beta t a b = Inr (x1, t1, tr1) \<longrightarrow> alfa_beta t1 a b = Inr (x1, t1, tr1))
   \<and> (alfa_beta_reverso t a b = Inr (x2, t2, tr2) \<longrightarrow>
        alfa_beta_reverso t2 a b = Inr (x2, t2, tr2))
   \<and> (bien_formado t \<longrightarrow>
        (\<exists>!r. alfa_beta t MenosInf MasInf = Inr r
               \<and> alfa_beta (fst (snd r)) MenosInf MasInf = Inr r)
      \<and> (\<exists>!r. alfa_beta_reverso t MenosInf MasInf = Inr r
               \<and> alfa_beta_reverso (fst (snd r)) MenosInf MasInf = Inr r))"
proof (intro conjI impI)
  assume "alfa_beta t a b = Inr (x1, t1, tr1)"
  then show "alfa_beta t1 a b = Inr (x1, t1, tr1)"
    by (rule alfa_beta_idem)
next
  assume "alfa_beta_reverso t a b = Inr (x2, t2, tr2)"
  then show "alfa_beta_reverso t2 a b = Inr (x2, t2, tr2)"
    by (rule alfa_beta_reverso_idem)
next
  assume bf: "bien_formado t"
  obtain y u tu where ev: "alfa_beta t MenosInf MasInf = Inr (Some y, u, tu)"
    using alfa_beta_valor [OF bf, of MenosInf MasInf] by auto
  have "alfa_beta u MenosInf MasInf = Inr (Some y, u, tu)"
    using ev by (rule alfa_beta_idem)
  then show "\<exists>!r. alfa_beta t MenosInf MasInf = Inr r
               \<and> alfa_beta (fst (snd r)) MenosInf MasInf = Inr r"
    using ev by auto
next
  assume bf: "bien_formado t"
  obtain y u tu where ev: "alfa_beta_reverso t MenosInf MasInf = Inr (Some y, u, tu)"
    using alfa_beta_reverso_valor [OF bf, of MenosInf MasInf] by auto
  have "alfa_beta_reverso u MenosInf MasInf = Inr (Some y, u, tu)"
    using ev by (rule alfa_beta_reverso_idem)
  then show "\<exists>!r. alfa_beta_reverso t MenosInf MasInf = Inr r
               \<and> alfa_beta_reverso (fst (snd r)) MenosInf MasInf = Inr r"
    using ev by auto
qed

theorem evaluacion_idempotente_testigo:
  "bien_formado arbol_prof3
   \<and> alfa_beta arbol_prof3 MenosInf MasInf =
       Inr (Some (Fin 3), arbol_prof3_directo, traza_prof3_directo)
   \<and> alfa_beta arbol_prof3_directo MenosInf MasInf =
       Inr (Some (Fin 3), arbol_prof3_directo, traza_prof3_directo)
   \<and> alfa_beta_reverso arbol_prof3 MenosInf MasInf =
       Inr (Some (Fin 3), arbol_prof3_reverso, traza_prof3_reverso)
   \<and> alfa_beta_reverso arbol_prof3_reverso MenosInf MasInf =
       Inr (Some (Fin 3), arbol_prof3_reverso, traza_prof3_reverso)"
  using evaluacion_idempotente [where t = arbol_prof3 and a = MenosInf and b = MasInf
      and ?x1.0 = "Some (Fin 3)" and ?t1.0 = arbol_prof3_directo and ?tr1.0 = traza_prof3_directo
      and ?x2.0 = "Some (Fin 3)" and ?t2.0 = arbol_prof3_reverso and ?tr2.0 = traza_prof3_reverso]
  by (simp add: arbol_prof3_def arbol_prof3_directo_def arbol_prof3_reverso_def
        traza_prof3_directo_def traza_prof3_reverso_def hoja_def max_def min_def)

section \<open>The generated tree\<close>

lemma ids_Nodo [simp]: "ids (Nodo i v hs m p) = i # concat (map ids hs)"
  by (simp add: ids_def [abs_def] map_concat comp_def)

lemma consecutivos_append:
  "map (\<lambda>j. c + int j) [0..<a] @ map (\<lambda>j. c + int a + int j) [0..<b] =
     map (\<lambda>j. (c::int) + int j) [0..<a + b]"
proof -
  have e: "map (\<lambda>i. i + a) [0..<b] = [a..<a + b]"
    by (simp add: map_add_upt add.commute)
  have "map (\<lambda>j. c + int j) [a..<a + b] = map (\<lambda>j. c + int j) (map (\<lambda>i. i + a) [0..<b])"
    by (simp only: e)
  also have "\<dots> = map (\<lambda>j. c + int a + int j) [0..<b]"
    by (simp add: ac_simps)
  finally have "map (\<lambda>j. c + int j) [a..<a + b] = map (\<lambda>j. c + int a + int j) [0..<b]" .
  moreover have "[0..<a + b] = [0..<a] @ [a..<a + b]"
    by (rule upt_add_eq_append) simp
  ultimately show ?thesis
    by (simp only: map_append)
qed

lemma consecutivos_cons:
  "c # map (\<lambda>j. c + 1 + int j) [0..<a] = map (\<lambda>j. (c::int) + int j) [0..<Suc a]"
  by (simp only: map_upt_Suc) (simp add: ac_simps)

lemma generar_ok:
  "generar_subarbol factor profundidad azar prof_actual mx s = (n, s') \<Longrightarrow>
     completo (nat factor) (nat (profundidad - prof_actual)) mx n
     \<and> (1 \<le> factor \<longrightarrow> recien_creado n)
     \<and> ids n = map (\<lambda>j. contador_id s + int j) [0..<length (ids n)]
     \<and> contador_id s' = contador_id s + int (length (ids n))"
  "generar_hijos factor profundidad azar k prof_actual mx s = (hs, s') \<Longrightarrow>
     length hs = k
     \<and> list_all (completo (nat factor) (nat (profundidad - (prof_actual + 1))) (\<not> mx)) hs
     \<and> (1 \<le> factor \<longrightarrow> list_all recien_creado hs)
     \<and> concat (map ids hs) =
         map (\<lambda>j. contador_id s + int j) [0..<length (concat (map ids hs))]
     \<and> contador_id s' = contador_id s + int (length (concat (map ids hs)))"
proof (induction factor profundidad azar prof_actual mx s
         and factor profundidad azar k prof_actual mx s
       arbitrary: n s' and hs s'
       rule: generar_subarbol_generar_hijos.induct)
  case (1 factor profundidad azar prof_actual mx s)
  let ?c = "contador_id s"
  let ?s1 = "s\<lparr>contador_id := contador_id s + 1\<rparr>"
  show ?case
  proof (cases "profundidad \<le> prof_actual")
    case True
    then have "n = Nodo ?c (Some (Fin (azar (sorteos ?s1)))) [] mx False"
      and "contador_id s' = ?c + 1"
      using "1.prems" True
      by (auto simp: generar_subarbol.simps [of factor profundidad azar prof_actual mx s] Let_def)
    then show ?thesis using True by simp
  next
    case False
    obtain hs s2 where hs: "generar_hijos factor profundidad azar (nat factor) prof_actual mx ?s1
        = (hs, s2)"
      by (cases "generar_hijos factor profundidad azar (nat factor) prof_actual mx ?s1") auto
    have n: "n = Nodo ?c None hs mx False" and s': "s' = s2"
      using "1.prems" False hs
      by (auto simp: generar_subarbol.simps [of factor profundidad azar prof_actual mx s] Let_def)
    have ih: "length hs = nat factor"
      "list_all (completo (nat factor) (nat (profundidad - (prof_actual + 1))) (\<not> mx)) hs"
      "1 \<le> factor \<longrightarrow> list_all recien_creado hs"
      "concat (map ids hs) =
         map (\<lambda>j. ?c + 1 + int j) [0..<length (concat (map ids hs))]"
      "contador_id s2 = ?c + 1 + int (length (concat (map ids hs)))"
      using "1.IH" [OF refl refl False hs] by simp_all
    have prof: "nat (profundidad - prof_actual) = Suc (nat (profundidad - (prof_actual + 1)))"
      using False by simp
    have "completo (nat factor) (nat (profundidad - prof_actual)) mx n"
      unfolding prof n using ih(1,2) by simp
    moreover have "ids n = map (\<lambda>j. ?c + int j) [0..<length (ids n)]"
      unfolding n ids_Nodo using ih(4) consecutivos_cons [of ?c "length (concat (map ids hs))"]
      by simp
    moreover have "contador_id s' = ?c + int (length (ids n))"
      unfolding n s' using ih(5) by simp
    moreover have "1 \<le> factor \<longrightarrow> recien_creado n"
      unfolding n using ih(1,3) by auto
    ultimately show ?thesis by simp
  qed
next
  case (2 factor profundidad azar prof_actual mx s)
  then show ?case by simp
next
  case (3 factor profundidad azar k prof_actual mx s)
  obtain hijo s1 where hijo: "generar_subarbol factor profundidad azar (prof_actual + 1)
      (\<not> mx) s = (hijo, s1)"
    by (cases "generar_subarbol factor profundidad azar (prof_actual + 1) (\<not> mx) s") auto
  obtain resto s2 where resto: "generar_hijos factor profundidad azar k prof_actual mx s1
      = (resto, s2)"
    by (cases "generar_hijos factor profundidad azar k prof_actual mx s1") auto
  have hs: "hs = hijo # resto" and s': "s' = s2"
    using "3.prems" hijo resto by simp_all
  have h: "completo (nat factor) (nat (profundidad - (prof_actual + 1))) (\<not> mx) hijo"
    "1 \<le> factor \<longrightarrow> recien_creado hijo"
    "ids hijo = map (\<lambda>j. contador_id s + int j) [0..<length (ids hijo)]"
    "contador_id s1 = contador_id s + int (length (ids hijo))"
    using "3.IH"(1) [OF hijo] by simp_all
  have r: "length resto = k"
    "list_all (completo (nat factor) (nat (profundidad - (prof_actual + 1))) (\<not> mx)) resto"
    "1 \<le> factor \<longrightarrow> list_all recien_creado resto"
    "concat (map ids resto) =
       map (\<lambda>j. contador_id s1 + int j) [0..<length (concat (map ids resto))]"
    "contador_id s2 = contador_id s1 + int (length (concat (map ids resto)))"
    using "3.IH"(2) [OF hijo [symmetric] resto] by simp_all
  have "concat (map ids hs) =
      map (\<lambda>j. contador_id s + int j) [0..<length (concat (map ids hs))]"
  proof -
    have "concat (map ids hs) = ids hijo @ concat (map ids resto)"
      unfolding hs by simp
    also have "\<dots> = map (\<lambda>j. contador_id s + int j) [0..<length (ids hijo)]
        @ map (\<lambda>j. contador_id s + int (length (ids hijo)) + int j)
            [0..<length (concat (map ids resto))]"
      using h(3) r(4) h(4) by simp
    also have "\<dots> = map (\<lambda>j. contador_id s + int j)
        [0..<length (ids hijo) + length (concat (map ids resto))]"
      by (rule consecutivos_append)
    also have "length (ids hijo) + length (concat (map ids resto)) = length (concat (map ids hs))"
      unfolding hs by simp
    finally show ?thesis .
  qed
  moreover have "contador_id s' = contador_id s + int (length (concat (map ids hs)))"
    unfolding hs s' using h(4) r(5) by simp
  ultimately show ?case
    unfolding hs using h(1,2) r(1,2,3) by simp
qed

lemma completo_es_max: "completo f d mx n \<Longrightarrow> es_max n = mx"
  by (cases d) simp_all

lemma completo_en:
  "completo f d mx t \<Longrightarrow> nodo_en t q = Some l \<Longrightarrow>
     \<exists>d' mx'. completo f d' mx' l \<and> length q + d' = d"
proof (induction q arbitrary: t d mx)
  case Nil
  then show ?case by auto
next
  case (Cons k ks)
  have k: "k < length (hijos t)" and ks: "nodo_en (hijos t ! k) ks = Some l"
    using Cons.prems(2) by (auto split: if_splits)
  obtain d0 where d: "d = Suc d0"
    using Cons.prems(1) k by (cases d) auto
  have "completo f d0 (\<not> mx) (hijos t ! k)"
    using Cons.prems(1) k unfolding d by (simp add: list_all_length)
  then obtain d' mx' where "completo f d' mx' l" and "length ks + d' = d0"
    using Cons.IH [OF _ ks] by blast
  then show ?case using d by auto
qed

lemma completo_hoja:
  assumes "completo f d mx l" and "1 \<le> f"
  shows "es_hoja l \<longleftrightarrow> d = 0"
  using assms by (cases d) (auto simp: es_hoja_def)

lemma completo_hijo:
  assumes "completo f d mx l" and "h \<in> set (hijos l)"
  shows "es_max h = (\<not> es_max l)"
proof -
  obtain d0 where d: "d = Suc d0"
    using assms by (cases d) auto
  have "completo f d0 (\<not> mx) h" and "es_max l = mx"
    using assms unfolding d by (simp_all add: list_all_iff)
  then show ?thesis using completo_es_max by blast
qed

lemma nodo_en_preorden: "nodo_en t q = Some l \<Longrightarrow> l \<in> set (preorden t)"
proof (induction q arbitrary: t)
  case Nil
  then have "l = t" by simp
  then show ?case by (cases t) simp
next
  case (Cons k ks)
  obtain i v hs m p where t: "t = Nodo i v hs m p" by (cases t)
  have k: "k < length hs" and ks: "nodo_en (hs ! k) ks = Some l"
    using Cons.prems unfolding t by (auto split: if_splits)
  have "l \<in> set (preorden (hs ! k))"
    using Cons.IH [OF ks] .
  then show ?case
    unfolding t using k by (auto intro!: bexI [of _ "hs ! k"])
qed

lemma consecutivos_crecen:
  "sorted_wrt (<) (map (\<lambda>j. (c::int) + int j) [0..<n])
   \<and> distinct (map (\<lambda>j. (c::int) + int j) [0..<n])"
proof -
  have "sorted_wrt (<) (map (\<lambda>j. c + int j) [0..<n])"
    by (simp add: sorted_wrt_map)
  moreover have "distinct (map (\<lambda>j. c + int j) [0..<n])"
    by (simp add: distinct_map inj_on_def)
  ultimately show ?thesis by simp
qed

text \<open>
  C9. For a branching factor of at least 1 and a depth of at least 0, in the tree returned
  by \<open>crear_arbol\<close>: every leaf stands at a position of exactly \<open>profundidad\<close> steps below
  the root and carries a value; every node that is not a leaf has exactly
  \<open>factor_ramificacion\<close> children; the root has the tag asked for and every child has the
  tag opposite to its parent's; the identifiers, read in pre-order, are \<open>0, 1, 2, ...\<close>, so
  they are strictly increasing and no two nodes share one (every node of the tree is in
  the pre-order list); and with depth 0 the root is a leaf with a value.
\<close>

theorem crear_arbol_forma:
  assumes "1 \<le> factor_ramificacion" and "0 \<le> profundidad"
    and "t = crear_arbol factor_ramificacion profundidad azar raiz_es_max"
  shows "(\<forall>q l. nodo_en t q = Some l \<longrightarrow> es_hoja l \<longrightarrow>
            int (length q) = profundidad \<and> valor l \<noteq> None)
       \<and> (\<forall>q l. nodo_en t q = Some l \<longrightarrow> \<not> es_hoja l \<longrightarrow>
            int (length (hijos l)) = factor_ramificacion)
       \<and> es_max t = raiz_es_max
       \<and> (\<forall>q l h. nodo_en t q = Some l \<longrightarrow> h \<in> set (hijos l) \<longrightarrow> es_max h = (\<not> es_max l))
       \<and> map ident (preorden t) = map int [0..<length (preorden t)]
       \<and> sorted_wrt (<) (map ident (preorden t))
       \<and> distinct (map ident (preorden t))
       \<and> (\<forall>q l. nodo_en t q = Some l \<longrightarrow> l \<in> set (preorden t))
       \<and> (profundidad = 0 \<longrightarrow> es_hoja t \<and> valor t \<noteq> None)"
proof -
  let ?s0 = "\<lparr>contador_id = 0, sorteos = 0\<rparr>"
  obtain s' where gen: "generar_subarbol factor_ramificacion profundidad azar 0 raiz_es_max ?s0
      = (t, s')"
    using assms(3) unfolding crear_arbol_def
    by (cases "generar_subarbol factor_ramificacion profundidad azar 0 raiz_es_max ?s0") auto
  let ?f = "nat factor_ramificacion"
  have f: "1 \<le> ?f" using assms(1) by simp
  have comp: "completo ?f (nat profundidad) raiz_es_max t"
    and num: "ids t = map (\<lambda>j. 0 + int j) [0..<length (ids t)]"
    using generar_ok(1) [OF gen] by simp_all
  have hojas: "int (length q) = profundidad \<and> valor l \<noteq> None"
    if en: "nodo_en t q = Some l" and hoja: "es_hoja l" for q l
  proof -
    obtain d' mx' where l: "completo ?f d' mx' l" and d': "length q + d' = nat profundidad"
      using completo_en [OF comp en] by blast
    have "d' = 0" using completo_hoja [OF l f] hoja by simp
    then show ?thesis using l d' assms(2) by auto
  qed
  have internos: "int (length (hijos l)) = factor_ramificacion"
    if en: "nodo_en t q = Some l" and interno: "\<not> es_hoja l" for q l
  proof -
    obtain d' mx' where l: "completo ?f d' mx' l"
      using completo_en [OF comp en] by blast
    obtain d0 where "d' = Suc d0"
      using completo_hoja [OF l f] interno by (cases d') auto
    then show ?thesis using l assms(1) by simp
  qed
  have etiquetas: "es_max h = (\<not> es_max l)"
    if en: "nodo_en t q = Some l" and hijo: "h \<in> set (hijos l)" for q l h
  proof -
    obtain d' mx' where l: "completo ?f d' mx' l"
      using completo_en [OF comp en] by blast
    show ?thesis using completo_hijo [OF l hijo] .
  qed
  have pre: "map ident (preorden t) = map int [0..<length (preorden t)]"
    using num by (simp add: ids_def)
  have crecen: "sorted_wrt (<) (map ident (preorden t))" "distinct (map ident (preorden t))"
    using consecutivos_crecen [of 0 "length (preorden t)"] pre by simp_all
  have raiz: "profundidad = 0 \<longrightarrow> es_hoja t \<and> valor t \<noteq> None"
    using comp by (auto simp: es_hoja_def)
  show ?thesis
    using hojas internos etiquetas pre crecen raiz completo_es_max [OF comp] nodo_en_preorden
    by blast
qed

theorem crear_arbol_forma_testigo:
  "(1::int) \<le> 2 \<and> (0::int) \<le> 2
   \<and> arbol_generado = crear_arbol 2 2 (\<lambda>k. real k) True
   \<and> map ident (preorden arbol_generado) = [0, 1, 2, 3, 4, 5, 6]
   \<and> nodo_en arbol_generado [1, 0] = Some (hoja 5 2 True) \<and> es_hoja (hoja 5 2 True)
   \<and> crear_arbol 2 0 (\<lambda>k. real k) True = hoja 0 0 True"
proof -
  have gen: "arbol_generado = crear_arbol 2 2 (\<lambda>k. real k) True"
    by (simp add: arbol_generado_def crear_arbol_def generar_subarbol.simps Let_def hoja_def
          eval_nat_numeral)
  have hoja0: "crear_arbol 2 0 (\<lambda>k. real k) True = hoja 0 0 True"
    by (simp add: crear_arbol_def generar_subarbol.simps Let_def hoja_def)
  have forma: "map ident (preorden arbol_generado) = [0, 1, 2, 3, 4, 5, 6]"
    "nodo_en arbol_generado [1, 0] = Some (hoja 5 2 True)" "es_hoja (hoja 5 2 True)"
    by (simp_all add: arbol_generado_def hoja_def es_hoja_def)
  have "int (length [1::nat, 0]) = 2"
    using crear_arbol_forma [OF _ _ gen] forma(2,3) by simp
  then show ?thesis
    using gen hoja0 forma by simp
qed

section \<open>Marks and visits, from left to right\<close>

lemma nodo_en_marcado_podado: "nodo_en (marca_podado n) r = Some d \<Longrightarrow> podado d"
  by (auto simp: nodo_en_marca)

lemma bucle_max_podados:
  assumes "\<And>h a b x h' tr. h \<in> set hs \<Longrightarrow> alfa_beta h a b = Inr (x, h', tr) \<Longrightarrow>
             (\<forall>q d. nodo_en h' q = Some d \<longrightarrow> (podado d \<longleftrightarrow> q \<notin> set tr))"
    and "bucle_max hs k val a b = Inr (vf, hs', tr)"
  shows "(\<forall>j r d. j < length hs' \<longrightarrow> nodo_en (hs' ! j) r = Some d \<longrightarrow>
            (podado d \<longleftrightarrow> (k + j) # r \<notin> set tr))
       \<and> (\<forall>q \<in> set tr. \<exists>j r. q = (k + j) # r)"
  using assms
proof (induction hs arbitrary: k val a hs' tr)
  case Nil
  then show ?case by simp
next
  case (Cons h resto)
  from Cons.prems(2) show ?case
  proof (cases rule: bucle_max_Cons_Inr)
    case (corte x h' trh)
    have h': "\<forall>q d. nodo_en h' q = Some d \<longrightarrow> (podado d \<longleftrightarrow> q \<notin> set trh)"
      using Cons.prems(1) [of h a b "Some x" h' trh] corte(1) by simp
    have "podado d \<longleftrightarrow> (k + j) # r \<notin> set tr"
      if j: "j < length hs'" and en: "nodo_en (hs' ! j) r = Some d" for j r d
    proof (cases j)
      case 0
      then show ?thesis using h' en corte(4,5) by auto
    next
      case (Suc j')
      then have "nodo_en (marca_podado (resto ! j')) r = Some d"
        using en j corte(4) by simp
      then have "podado d" by (rule nodo_en_marcado_podado)
      then show ?thesis using Suc corte(5) by auto
    qed
    moreover have "\<forall>q \<in> set tr. \<exists>j r. q = (k + j) # r"
      using corte(5) by (auto intro: exI [of _ 0])
    ultimately show ?thesis by blast
  next
    case (sigue x h' trh resto' tr')
    have h': "\<forall>q d. nodo_en h' q = Some d \<longrightarrow> (podado d \<longleftrightarrow> q \<notin> set trh)"
      using Cons.prems(1) [of h a b "Some x" h' trh] sigue(1) by simp
    have resto_ok: "\<forall>q d. nodo_en h' q = Some d \<longrightarrow> (podado d \<longleftrightarrow> q \<notin> set tr)"
      if "h \<in> set resto" "alfa_beta h a b = Inr (x, h', tr)" for h a b x h' tr
      using that Cons.prems(1) [of h a b x h' tr] by simp
    have "(\<forall>j r d. j < length resto' \<longrightarrow> nodo_en (resto' ! j) r = Some d \<longrightarrow>
            (podado d \<longleftrightarrow> (Suc k + j) # r \<notin> set tr'))
       \<and> (\<forall>q \<in> set tr'. \<exists>j r. q = (Suc k + j) # r)"
      by (rule Cons.IH [OF _ sigue(3)]) (rule resto_ok)
    then have r1: "\<And>j r d. j < length resto' \<Longrightarrow> nodo_en (resto' ! j) r = Some d \<Longrightarrow>
            (podado d \<longleftrightarrow> (Suc k + j) # r \<notin> set tr')"
      and r2: "\<And>q. q \<in> set tr' \<Longrightarrow> \<exists>j r. q = (Suc k + j) # r"
      by blast+
    have fuera: "k # r \<notin> set tr'" for r
      using r2 [of "k # r"] by auto
    have "podado d \<longleftrightarrow> (k + j) # r \<notin> set tr"
      if j: "j < length hs'" and en: "nodo_en (hs' ! j) r = Some d" for j r d
    proof (cases j)
      case 0
      then show ?thesis using h' en sigue(4,5) fuera by auto
    next
      case (Suc j')
      then have "podado d \<longleftrightarrow> (Suc k + j') # r \<notin> set tr'"
        using r1 [of j' r d] en j sigue(4) by simp
      then show ?thesis using Suc sigue(5) by auto
    qed
    moreover have "\<forall>q \<in> set tr. \<exists>j r. q = (k + j) # r"
    proof
      fix q assume "q \<in> set tr"
      then consider "q \<in> set (map ((#) k) trh)" | "q \<in> set tr'"
        using sigue(5) by auto
      then show "\<exists>j r. q = (k + j) # r"
      proof cases
        case 1
        then show ?thesis by (auto intro: exI [of _ 0])
      next
        case 2
        then obtain j r where "q = (Suc k + j) # r" using r2 by blast
        then have "q = (k + Suc j) # r" by simp
        then show ?thesis by blast
      qed
    qed
    ultimately show ?thesis by blast
  qed
qed

lemma bucle_min_podados:
  assumes "\<And>h a b x h' tr. h \<in> set hs \<Longrightarrow> alfa_beta h a b = Inr (x, h', tr) \<Longrightarrow>
             (\<forall>q d. nodo_en h' q = Some d \<longrightarrow> (podado d \<longleftrightarrow> q \<notin> set tr))"
    and "bucle_min hs k val a b = Inr (vf, hs', tr)"
  shows "(\<forall>j r d. j < length hs' \<longrightarrow> nodo_en (hs' ! j) r = Some d \<longrightarrow>
            (podado d \<longleftrightarrow> (k + j) # r \<notin> set tr))
       \<and> (\<forall>q \<in> set tr. \<exists>j r. q = (k + j) # r)"
  using assms
proof (induction hs arbitrary: k val b hs' tr)
  case Nil
  then show ?case by simp
next
  case (Cons h resto)
  from Cons.prems(2) show ?case
  proof (cases rule: bucle_min_Cons_Inr)
    case (corte x h' trh)
    have h': "\<forall>q d. nodo_en h' q = Some d \<longrightarrow> (podado d \<longleftrightarrow> q \<notin> set trh)"
      using Cons.prems(1) [of h a b "Some x" h' trh] corte(1) by simp
    have "podado d \<longleftrightarrow> (k + j) # r \<notin> set tr"
      if j: "j < length hs'" and en: "nodo_en (hs' ! j) r = Some d" for j r d
    proof (cases j)
      case 0
      then show ?thesis using h' en corte(4,5) by auto
    next
      case (Suc j')
      then have "nodo_en (marca_podado (resto ! j')) r = Some d"
        using en j corte(4) by simp
      then have "podado d" by (rule nodo_en_marcado_podado)
      then show ?thesis using Suc corte(5) by auto
    qed
    moreover have "\<forall>q \<in> set tr. \<exists>j r. q = (k + j) # r"
      using corte(5) by (auto intro: exI [of _ 0])
    ultimately show ?thesis by blast
  next
    case (sigue x h' trh resto' tr')
    have h': "\<forall>q d. nodo_en h' q = Some d \<longrightarrow> (podado d \<longleftrightarrow> q \<notin> set trh)"
      using Cons.prems(1) [of h a b "Some x" h' trh] sigue(1) by simp
    have resto_ok: "\<forall>q d. nodo_en h' q = Some d \<longrightarrow> (podado d \<longleftrightarrow> q \<notin> set tr)"
      if "h \<in> set resto" "alfa_beta h a b = Inr (x, h', tr)" for h a b x h' tr
      using that Cons.prems(1) [of h a b x h' tr] by simp
    have "(\<forall>j r d. j < length resto' \<longrightarrow> nodo_en (resto' ! j) r = Some d \<longrightarrow>
            (podado d \<longleftrightarrow> (Suc k + j) # r \<notin> set tr'))
       \<and> (\<forall>q \<in> set tr'. \<exists>j r. q = (Suc k + j) # r)"
      by (rule Cons.IH [OF _ sigue(3)]) (rule resto_ok)
    then have r1: "\<And>j r d. j < length resto' \<Longrightarrow> nodo_en (resto' ! j) r = Some d \<Longrightarrow>
            (podado d \<longleftrightarrow> (Suc k + j) # r \<notin> set tr')"
      and r2: "\<And>q. q \<in> set tr' \<Longrightarrow> \<exists>j r. q = (Suc k + j) # r"
      by blast+
    have fuera: "k # r \<notin> set tr'" for r
      using r2 [of "k # r"] by auto
    have "podado d \<longleftrightarrow> (k + j) # r \<notin> set tr"
      if j: "j < length hs'" and en: "nodo_en (hs' ! j) r = Some d" for j r d
    proof (cases j)
      case 0
      then show ?thesis using h' en sigue(4,5) fuera by auto
    next
      case (Suc j')
      then have "podado d \<longleftrightarrow> (Suc k + j') # r \<notin> set tr'"
        using r1 [of j' r d] en j sigue(4) by simp
      then show ?thesis using Suc sigue(5) by auto
    qed
    moreover have "\<forall>q \<in> set tr. \<exists>j r. q = (k + j) # r"
    proof
      fix q assume "q \<in> set tr"
      then consider "q \<in> set (map ((#) k) trh)" | "q \<in> set tr'"
        using sigue(5) by auto
      then show "\<exists>j r. q = (k + j) # r"
      proof cases
        case 1
        then show ?thesis by (auto intro: exI [of _ 0])
      next
        case 2
        then obtain j r where "q = (Suc k + j) # r" using r2 by blast
        then have "q = (k + Suc j) # r" by simp
        then show ?thesis by blast
      qed
    qed
    ultimately show ?thesis by blast
  qed
qed

lemma alfa_beta_podado_sii_no_visitado:
  "sin_marcas n \<Longrightarrow> alfa_beta n a b = Inr (x, n', tr) \<Longrightarrow>
     (\<forall>q d. nodo_en n' q = Some d \<longrightarrow> (podado d \<longleftrightarrow> q \<notin> set tr))"
proof (induction n arbitrary: a b x n' tr)
  case (Nodo i v hs m p)
  have hijos: "\<forall>q d. nodo_en h' q = Some d \<longrightarrow> (podado d \<longleftrightarrow> q \<notin> set tr)"
    if "h \<in> set hs" "alfa_beta h a b = Inr (x, h', tr)" for h a b x h' tr
    using that Nodo.IH [of h a b x h' tr] Nodo.prems(1) by (simp add: list_all_iff)
  have p: "\<not> p" using Nodo.prems(1) by simp
  from Nodo.prems(2) show ?case
  proof (cases rule: alfa_beta_Inr)
    case hoja
    have "podado d \<longleftrightarrow> q \<notin> set tr" if "nodo_en n' q = Some d" for q d
      using that hoja p by (cases q) auto
    then show ?thesis by blast
  next
    case (maxi vf hs' tr')
    have "(\<forall>j r d. j < length hs' \<longrightarrow> nodo_en (hs' ! j) r = Some d \<longrightarrow>
            (podado d \<longleftrightarrow> (0 + j) # r \<notin> set tr'))
       \<and> (\<forall>q \<in> set tr'. \<exists>j r. q = (0 + j) # r)"
      by (rule bucle_max_podados [OF _ maxi(3)]) (rule hijos)
    then have ciclo: "\<And>j r d. j < length hs' \<Longrightarrow> nodo_en (hs' ! j) r = Some d \<Longrightarrow>
            (podado d \<longleftrightarrow> (0 + j) # r \<notin> set tr')"
      by blast
    have "podado d \<longleftrightarrow> q \<notin> set tr" if en: "nodo_en n' q = Some d" for q d
    proof (cases q)
      case Nil
      then show ?thesis using en maxi p by auto
    next
      case (Cons j r)
      then have "j < length hs'" and "nodo_en (hs' ! j) r = Some d"
        using en maxi(5) by (auto split: if_splits)
      then show ?thesis using ciclo [of j r d] Cons maxi(6) by simp
    qed
    then show ?thesis by blast
  next
    case (mini vf hs' tr')
    have "(\<forall>j r d. j < length hs' \<longrightarrow> nodo_en (hs' ! j) r = Some d \<longrightarrow>
            (podado d \<longleftrightarrow> (0 + j) # r \<notin> set tr'))
       \<and> (\<forall>q \<in> set tr'. \<exists>j r. q = (0 + j) # r)"
      by (rule bucle_min_podados [OF _ mini(3)]) (rule hijos)
    then have ciclo: "\<And>j r d. j < length hs' \<Longrightarrow> nodo_en (hs' ! j) r = Some d \<Longrightarrow>
            (podado d \<longleftrightarrow> (0 + j) # r \<notin> set tr')"
      by blast
    have "podado d \<longleftrightarrow> q \<notin> set tr" if en: "nodo_en n' q = Some d" for q d
    proof (cases q)
      case Nil
      then show ?thesis using en mini p by auto
    next
      case (Cons j r)
      then have "j < length hs'" and "nodo_en (hs' ! j) r = Some d"
        using en mini(5) by (auto split: if_splits)
      then show ?thesis using ciclo [of j r d] Cons mini(6) by simp
    qed
    then show ?thesis by blast
  qed
qed

lemma recien_creado_sin_marcas: "recien_creado n \<Longrightarrow> sin_marcas n"
  by (induction n) (auto simp: list_all_iff split: if_splits)

lemma marca_recien_creado: "recien_creado n \<Longrightarrow> podados_sin_valor (marca_podado n)"
  by (induction n) (auto simp: list_all_iff split: if_splits)

lemma bucle_max_podados_sin_valor:
  assumes "\<And>h a b x h' tr. h \<in> set hs \<Longrightarrow> alfa_beta h a b = Inr (x, h', tr) \<Longrightarrow>
             podados_sin_valor h'"
    and "list_all recien_creado hs"
    and "bucle_max hs k val a b = Inr (vf, hs', tr)"
  shows "list_all podados_sin_valor hs'"
  using assms
proof (induction hs arbitrary: k val a hs' tr)
  case Nil
  then show ?case by simp
next
  case (Cons h resto)
  from Cons.prems(3) show ?case
  proof (cases rule: bucle_max_Cons_Inr)
    case (corte x h' trh)
    have "podados_sin_valor h'"
      using Cons.prems(1) [of h a b "Some x" h' trh] corte(1) by simp
    moreover have "list_all podados_sin_valor (map marca_podado resto)"
      using Cons.prems(2) by (simp add: list_all_iff marca_recien_creado)
    ultimately show ?thesis using corte(4) by simp
  next
    case (sigue x h' trh resto' tr')
    have "podados_sin_valor h'"
      using Cons.prems(1) [of h a b "Some x" h' trh] sigue(1) by simp
    moreover have "list_all podados_sin_valor resto'"
    proof (rule Cons.IH [OF _ _ sigue(3)])
      show "list_all recien_creado resto" using Cons.prems(2) by simp
    next
      fix h a b x h' tr
      assume "h \<in> set resto" "alfa_beta h a b = Inr (x, h', tr)"
      then show "podados_sin_valor h'"
        using Cons.prems(1) [of h a b x h' tr] by simp
    qed
    ultimately show ?thesis using sigue(4) by simp
  qed
qed

lemma bucle_min_podados_sin_valor:
  assumes "\<And>h a b x h' tr. h \<in> set hs \<Longrightarrow> alfa_beta h a b = Inr (x, h', tr) \<Longrightarrow>
             podados_sin_valor h'"
    and "list_all recien_creado hs"
    and "bucle_min hs k val a b = Inr (vf, hs', tr)"
  shows "list_all podados_sin_valor hs'"
  using assms
proof (induction hs arbitrary: k val b hs' tr)
  case Nil
  then show ?case by simp
next
  case (Cons h resto)
  from Cons.prems(3) show ?case
  proof (cases rule: bucle_min_Cons_Inr)
    case (corte x h' trh)
    have "podados_sin_valor h'"
      using Cons.prems(1) [of h a b "Some x" h' trh] corte(1) by simp
    moreover have "list_all podados_sin_valor (map marca_podado resto)"
      using Cons.prems(2) by (simp add: list_all_iff marca_recien_creado)
    ultimately show ?thesis using corte(4) by simp
  next
    case (sigue x h' trh resto' tr')
    have "podados_sin_valor h'"
      using Cons.prems(1) [of h a b "Some x" h' trh] sigue(1) by simp
    moreover have "list_all podados_sin_valor resto'"
    proof (rule Cons.IH [OF _ _ sigue(3)])
      show "list_all recien_creado resto" using Cons.prems(2) by simp
    next
      fix h a b x h' tr
      assume "h \<in> set resto" "alfa_beta h a b = Inr (x, h', tr)"
      then show "podados_sin_valor h'"
        using Cons.prems(1) [of h a b x h' tr] by simp
    qed
    ultimately show ?thesis using sigue(4) by simp
  qed
qed

lemma alfa_beta_podados_sin_valor:
  "recien_creado n \<Longrightarrow> alfa_beta n a b = Inr (x, n', tr) \<Longrightarrow> podados_sin_valor n'"
proof (induction n arbitrary: a b x n' tr)
  case (Nodo i v hs m p)
  have hijos: "podados_sin_valor h'"
    if "h \<in> set hs" "alfa_beta h a b = Inr (x, h', tr)" for h a b x h' tr
    using that Nodo.IH [of h a b x h' tr] Nodo.prems(1)
    by (auto simp: list_all_iff split: if_splits)
  have p: "\<not> p" using Nodo.prems(1) by simp
  from Nodo.prems(2) show ?case
  proof (cases rule: alfa_beta_Inr)
    case hoja
    then show ?thesis by simp
  next
    case (maxi vf hs' tr')
    have rc: "list_all recien_creado hs" using Nodo.prems(1) maxi(1) by simp
    have "list_all podados_sin_valor hs'"
      by (rule bucle_max_podados_sin_valor [OF _ rc maxi(3)]) (rule hijos)
    then show ?thesis using maxi(5) p by simp
  next
    case (mini vf hs' tr')
    have rc: "list_all recien_creado hs" using Nodo.prems(1) mini(1) by simp
    have "list_all podados_sin_valor hs'"
      by (rule bucle_min_podados_sin_valor [OF _ rc mini(3)]) (rule hijos)
    then show ?thesis using mini(5) p by simp
  qed
qed

lemma podados_sin_valor_en:
  "podados_sin_valor n \<Longrightarrow> nodo_en n q = Some d \<Longrightarrow> podados_sin_valor d"
proof (induction q arbitrary: n)
  case Nil
  then show ?case by simp
next
  case (Cons k ks)
  have k: "k < length (hijos n)" and ks: "nodo_en (hijos n ! k) ks = Some d"
    using Cons.prems(2) by (auto split: if_splits)
  have "podados_sin_valor (hijos n ! k)"
    using Cons.prems(1) k by (cases n) (simp add: list_all_length)
  then show ?case using Cons.IH ks by blast
qed

text \<open>
  Left to right, on a tree as the generator leaves it, the evaluator does what C1 and C10
  say: in the tree it leaves, a node is marked as pruned exactly when \<open>alfa_beta\<close> was never
  called on it, and a marked internal node has no value.
\<close>

lemma izquierda_derecha_poda_exclusiva:
  assumes "recien_creado t" and "alfa_beta t a b = Inr (x, t', tr)"
    and "nodo_en t' q = Some d"
  shows "podado d \<longleftrightarrow> q \<notin> set tr"
    and "podado d \<Longrightarrow> \<not> es_hoja d \<Longrightarrow> valor d = None"
proof -
  show "podado d \<longleftrightarrow> q \<notin> set tr"
    using alfa_beta_podado_sii_no_visitado [OF recien_creado_sin_marcas [OF assms(1)] assms(2)]
      assms(3) by blast
  have "podados_sin_valor d"
    using podados_sin_valor_en [OF alfa_beta_podados_sin_valor [OF assms(1,2)] assms(3)] .
  then show "podado d \<Longrightarrow> \<not> es_hoja d \<Longrightarrow> valor d = None"
    by (cases d) (auto simp: es_hoja_def split: if_splits)
qed

text \<open>
  The cutoff policy of C4 in the left-to-right loops: the bound is updated with the value
  of the child just visited, then tested with \<open>>=\<close>; on a cutoff the child just visited is
  kept as evaluated and exactly the children after it are marked.
\<close>

lemma izquierda_derecha_corte_max:
  assumes "alfa_beta h a b = Inr (Some x, h', trh)" and "b \<le> max a (max val x)"
  shows "bucle_max (h # resto) k val a b =
           Inr (max val x, h' # map marca_podado resto, map ((#) k) trh)"
  using assms by (simp add: Let_def)

lemma izquierda_derecha_corte_min:
  assumes "alfa_beta h a b = Inr (Some x, h', trh)" and "min b (min val x) \<le> a"
  shows "bucle_min (h # resto) k val a b =
           Inr (min val x, h' # map marca_podado resto, map ((#) k) trh)"
  using assms by (simp add: Let_def)

section \<open>Marks and visits, from right to left\<close>

text \<open>
  C1, on the code. Right to left, on the tree with leaves \<open>[[2, 9], [3, 5]]\<close>, the leaf 9
  (position \<open>[0, 1]\<close>) is visited by \<open>alfa_beta_reverso\<close> and ends with \<open>podado = True\<close>;
  on the tree with leaves \<open>[[9, 2], [3, 5]]\<close>, the leaf 9 (position \<open>[0, 0]\<close>) is never
  visited and ends with \<open>podado = False\<close>.
\<close>

theorem reverso_poda_y_visita:
  "alfa_beta_reverso arbol_2935 MenosInf MasInf =
     Inr (Some (Fin 3), arbol_2935_reverso, [[], [1], [1, 1], [1, 0], [0], [0, 1], [0, 0]])
   \<and> map_option podado (nodo_en arbol_2935_reverso [0, 1]) = Some True
   \<and> alfa_beta_reverso arbol_9235 MenosInf MasInf =
       Inr (Some (Fin 3), arbol_9235_reverso, [[], [1], [1, 1], [1, 0], [0], [0, 1]])
   \<and> map_option podado (nodo_en arbol_9235_reverso [0, 0]) = Some False"
  by (simp add: arbol_2935_def arbol_2935_reverso_def arbol_9235_def arbol_9235_reverso_def
        hoja_def max_def min_def)

text \<open>
  C4, on the code. The right-to-left loop of a MIN node, run with \<open>alfa = 3\<close>: over the
  children \<open>[2, 9]\<close> it visits 9, then 2, stops there, and marks the child 9, which it
  had visited before the child that stops the loop; over the children \<open>[9, 2]\<close> it visits
  2, stops there, and the child 9, next in the right-to-left order, is left unmarked.
\<close>

theorem reverso_marca_los_anteriores:
  "bucle_min_rev (rev [hoja 2 2 True, hoja 3 9 True]) [] MasInf (Fin 3) MasInf =
     Inr (Fin 2, [hoja 2 2 True, Nodo 3 (Some (Fin 9)) [] True True], [[1], [0]])
   \<and> bucle_min_rev (rev [hoja 2 9 True, hoja 3 2 True]) [] MasInf (Fin 3) MasInf =
       Inr (Fin 2, [hoja 2 9 True, hoja 3 2 True], [[1]])"
  by (simp add: hoja_def max_def min_def)

text \<open>
  C10, on the code. Right to left, on the tree \<open>arbol_prof3\<close> of depth 3, the internal
  node at position \<open>[0, 1]\<close> is visited, gets the value 7, and is then marked: it ends with
  \<open>podado = True\<close> and a value.
\<close>

theorem reverso_podado_con_valor:
  "alfa_beta_reverso arbol_prof3 MenosInf MasInf =
     Inr (Some (Fin 3), arbol_prof3_reverso, traza_prof3_reverso)
   \<and> nodo_en arbol_prof3_reverso [0, 1] =
       Some (Nodo 5 (Some (Fin 7))
               [Nodo 6 (Some (Fin 6)) [] False True, Nodo 7 (Some (Fin 7)) [] False True]
               True True)
   \<and> [0, 1] \<in> set traza_prof3_reverso"
  by (simp add: arbol_prof3_def arbol_prof3_reverso_def traza_prof3_reverso_def hoja_def
        max_def min_def)

end
